theory Spec2Isabelle
  imports Main "HOL-Library.Multiset" "HOL-Library.Char_ord" "HOL-Library.List_Lexorder"
    "HOL-Library.Product_Lexorder" "HOL-Library.AList" "HOL-Library.Word"
begin

unbundle bit_operations_syntax

section \<open>The event log\<close>

text \<open>
  A row of the chat log, with the columns already under the names that every script
  gives them first (\<^verbatim>\<open>model_name\<close> to \<^verbatim>\<open>model_id\<close>, \<^verbatim>\<open>datetime\<close> to
  \<^verbatim>\<open>timestamp\<close>, \<^verbatim>\<open>purchased\<close> to \<^verbatim>\<open>purchase\<close>). \<open>index\<close> is the label the
  DataFrame carries for the row; sorting and filtering keep it. \<open>fan_id\<close> and
  \<open>model_id\<close> are the texts that \<^verbatim>\<open>astype(str)\<close> gives, \<open>timestamp\<close> is the instant
  in nanoseconds, \<open>purchase_cell\<close> is the text of the raw purchase cell. A string is
  the byte sequence of the text.
\<close>

record row =
  index :: int
  fan_id :: string
  model_id :: string
  timestamp :: int
  purchase_cell :: string
  is_system :: bool
  fan_message :: "string option"

text \<open>A row after cleaning: the purchase flag as a boolean and the derived key.\<close>

record event = row +
  purchase :: bool
  fan_model_id :: string

text \<open>The exceptions that the scripts can raise on well-formed input.\<close>

datatype py_error = ValueError | AttributeError | ServiceError | OverflowError

section \<open>segmentation.py\<close>

subsection \<open>preprocess\<close>

definition upper_char :: "char \<Rightarrow> char" where
  "upper_char c =
     (case map_of (zip ''abcdefghijklmnopqrstuvwxyz'' ''ABCDEFGHIJKLMNOPQRSTUVWXYZ'') c of
        Some u \<Rightarrow> u | None \<Rightarrow> c)"

definition purchase_tokens :: "(string \<times> bool) list" where
  "purchase_tokens = [(''TRUE'', True), (''FALSE'', False), (''1'', True), (''0'', False)]"

text \<open>\<^verbatim>\<open>astype(str).str.upper().map({...}).fillna(False)\<close>\<close>

definition normalize_purchase :: "string \<Rightarrow> bool" where
  "normalize_purchase s =
     (case map_of purchase_tokens (map upper_char s) of Some b \<Rightarrow> b | None \<Rightarrow> False)"

definition clean :: "row \<Rightarrow> event" where
  "clean r = row.extend r
     (event.fields (normalize_purchase (purchase_cell r)) (fan_id r @ ''_'' @ model_id r))"

text \<open>
  The first argument says whether the log has an \<^verbatim>\<open>is_system\<close> column. The sort on
  the two columns is pandas' lexicographic sort, which keeps rows of equal keys in their
  input order, as \<^const>\<open>sort_key\<close> does.
\<close>

definition preprocess :: "bool \<Rightarrow> row list \<Rightarrow> event list" where
  "preprocess has_is_system df =
     (let df1 = (if has_is_system then filter (\<lambda>r. \<not> is_system r) df else df);
          df2 = map clean df1
      in sort_key (\<lambda>e. (fan_model_id e, timestamp e)) df2)"

subsection \<open>assign\_conversations\<close>

text \<open>\<^verbatim>\<open>groupby(key)[col].shift(1)\<close>: at each row the value of the previous row of the
  same group, absent at the first row of a group.\<close>

fun shift_from :: "('k \<Rightarrow> 'v option) \<Rightarrow> ('k \<times> 'v) list \<Rightarrow> 'v option list" where
  "shift_from m [] = []"
| "shift_from m ((k, v) # kvs) = m k # shift_from (m(k \<mapsto> v)) kvs"

definition group_shift :: "'k list \<Rightarrow> 'v list \<Rightarrow> 'v option list" where
  "group_shift ks vs = shift_from (\<lambda>k. None) (zip ks vs)"

text \<open>\<^verbatim>\<open>groupby(key)[col].cumsum()\<close> on a boolean column: the number of flagged rows of
  the same group up to and including the row.\<close>

fun cumsum_from :: "('k \<Rightarrow> nat) \<Rightarrow> ('k \<times> bool) list \<Rightarrow> nat list" where
  "cumsum_from c [] = []"
| "cumsum_from c ((k, b) # kbs) =
     (let n = c k + (if b then 1 else 0) in n # cumsum_from (c(k := n)) kbs)"

definition group_cumsum :: "'k list \<Rightarrow> bool list \<Rightarrow> nat list" where
  "group_cumsum ks bs = cumsum_from (\<lambda>k. 0) (zip ks bs)"

text \<open>\<^verbatim>\<open>timedelta(hours=4)\<close> in nanoseconds.\<close>

definition four_hours :: int where
  "four_hours = 4 * 3600 * 1000000000"

text \<open>\<^verbatim>\<open>astype(str)\<close> on the counter.\<close>

definition digit_char :: "nat \<Rightarrow> char" where
  "digit_char n = ''0123456789'' ! n"

function str_nat :: "nat \<Rightarrow> string" where
  "str_nat n = (if n < 10 then [digit_char n] else str_nat (n div 10) @ [digit_char (n mod 10)])"
  by pat_completeness auto
termination
  by (relation "measure id") auto

declare str_nat.simps [simp del]

text \<open>A row of the frame that \<^verbatim>\<open>assign_conversations\<close> returns: the event with its new
  columns.\<close>

record convo_row =
  ev :: event
  prev_model :: "string option"
  prev_time :: "int option"
  new_convo :: bool
  convo_id :: nat
  conversation_id :: string

text \<open>
  A value differs from the missing value of the first row of a group. The timestamps are
  64-bit counts of nanoseconds, and \<^verbatim>\<open>df['timestamp'] - df['prev_time']\<close> is a 64-bit
  subtraction: it raises \<^verbatim>\<open>OverflowError\<close> when the difference of two present values
  leaves the 64-bit range. The difference to a missing time is missing, and so is the
  difference \<open>- 2 ^ 63\<close>, which is the bit pattern of the missing value; a missing
  difference exceeds nothing.
\<close>

definition model_switch :: "string \<Rightarrow> string option \<Rightarrow> bool" where
  "model_switch m p = (case p of None \<Rightarrow> True | Some m' \<Rightarrow> m \<noteq> m')"

definition time_diff_overflows :: "int \<Rightarrow> int option \<Rightarrow> bool" where
  "time_diff_overflows t p =
     (case p of None \<Rightarrow> False | Some t' \<Rightarrow> t - t' > 2 ^ 63 - 1 \<or> t - t' < - (2 ^ 63))"

definition time_diff :: "int \<Rightarrow> int option \<Rightarrow> int option" where
  "time_diff t p =
     (case p of None \<Rightarrow> None | Some t' \<Rightarrow> if t - t' = - (2 ^ 63) then None else Some (t - t'))"

definition time_gap :: "int \<Rightarrow> int option \<Rightarrow> bool" where
  "time_gap t p = (case time_diff t p of None \<Rightarrow> False | Some d \<Rightarrow> d > four_hours)"

definition new_convo_flags :: "string list \<Rightarrow> string list \<Rightarrow> int list \<Rightarrow> bool list" where
  "new_convo_flags ks ms ts =
     map2 (\<or>) (map2 model_switch ms (group_shift ks ms)) (map2 time_gap ts (group_shift ks ts))"

definition convo_ids :: "string list \<Rightarrow> string list \<Rightarrow> int list \<Rightarrow> nat list" where
  "convo_ids ks ms ts = group_cumsum ks (new_convo_flags ks ms ts)"

text \<open>The frame with its new columns, as it is built when no subtraction overflows.\<close>

definition conversation_rows :: "event list \<Rightarrow> convo_row list" where
  "conversation_rows df =
     (let ks = map fan_model_id df; ms = map model_id df; ts = map timestamp df;
          pm = group_shift ks ms; pt = group_shift ks ts;
          nc = new_convo_flags ks ms ts;
          ci = convo_ids ks ms ts
      in map (\<lambda>(e, pm, pt, nc, ci).
            \<lparr>ev = e, prev_model = pm, prev_time = pt, new_convo = nc, convo_id = ci,
             conversation_id = fan_model_id e @ ''_C'' @ str_nat ci\<rparr>)
           (zip df (zip pm (zip pt (zip nc ci)))))"

text \<open>Whether the subtraction of the previous time overflows at some row.\<close>

definition gap_overflows :: "event list \<Rightarrow> bool" where
  "gap_overflows df =
     list_ex (\<lambda>(t, p). time_diff_overflows t p)
       (zip (map timestamp df) (group_shift (map fan_model_id df) (map timestamp df)))"

text \<open>\<^verbatim>\<open>assign_conversations\<close>: the subtraction raises, or the frame is returned.\<close>

definition assign_conversations :: "event list \<Rightarrow> py_error + convo_row list" where
  "assign_conversations df =
     (if gap_overflows df then Inl OverflowError else Inr (conversation_rows df))"

text \<open>The first row of a fan-model group, and two rows of one group with no row of
  that group between them.\<close>

definition first_of_group :: "event list \<Rightarrow> nat \<Rightarrow> bool" where
  "first_of_group df i =
     (i < length df \<and> (\<forall>l<i. fan_model_id (df ! l) \<noteq> fan_model_id (df ! i)))"

definition consecutive_in_group :: "event list \<Rightarrow> nat \<Rightarrow> nat \<Rightarrow> bool" where
  "consecutive_in_group df i j =
     (i < j \<and> j < length df \<and> fan_model_id (df ! i) = fan_model_id (df ! j) \<and>
      (\<forall>l<j. i < l \<longrightarrow> fan_model_id (df ! l) \<noteq> fan_model_id (df ! j)))"

text \<open>Rows of one fan-model key and one timestamp name one model.\<close>

definition ties_share_model :: "event list \<Rightarrow> bool" where
  "ties_share_model es =
     (\<forall>a\<in>set es. \<forall>b\<in>set es.
        fan_model_id a = fan_model_id b \<and> timestamp a = timestamp b \<longrightarrow> model_id a = model_id b)"

subsection \<open>Sample rows\<close>

definition hours :: "int \<Rightarrow> int" where
  "hours h = h * 3600 * 1000000000"

definition chat :: "int \<Rightarrow> string \<Rightarrow> string \<Rightarrow> int \<Rightarrow> string \<Rightarrow> row" where
  "chat i f m t p = \<lparr>index = i, fan_id = f, model_id = m, timestamp = t,
     purchase_cell = p, is_system = False, fan_message = Some ''hi''\<rparr>"

subsection \<open>compute\_features\<close>

text \<open>
  One row of the feature table. Of the features only the counts and the label-based
  \<^verbatim>\<open>messages_before_first_purchase\<close> are modelled; the durations in hours are floating
  point and no property below is about them. \<^verbatim>\<open>purchase_msgs.index[0] - group.index[0]\<close>
  subtracts the index labels of two rows.
\<close>

record features =
  feat_conversation_id :: string
  feat_fan_model_id :: string
  message_count :: int
  purchase_count :: int
  messages_before_first_purchase :: int

definition group_features :: "string \<Rightarrow> convo_row list \<Rightarrow> features" where
  "group_features convo grp =
     (let purchase_msgs = filter (\<lambda>r. purchase (ev r)) grp
      in \<lparr>feat_conversation_id = convo,
          feat_fan_model_id = fan_model_id (ev (hd grp)),
          message_count = int (length grp),
          purchase_count = int (length purchase_msgs),
          messages_before_first_purchase =
            (if purchase_msgs \<noteq> [] then index (ev (hd purchase_msgs)) - index (ev (hd grp))
             else int (length grp))\<rparr>)"

text \<open>\<^verbatim>\<open>groupby('conversation_id')\<close> visits the keys in sorted order, each with its rows
  in frame order; a key taken from the frame has at least one row.\<close>

definition compute_features :: "convo_row list \<Rightarrow> features list" where
  "compute_features df =
     map (\<lambda>c. group_features c (filter (\<lambda>r. conversation_id r = c) df))
       (sort (remdups (map conversation_id df)))"

text \<open>\<^verbatim>\<open>main\<close> of the script: preprocess, assign conversations, compute the features.\<close>

definition conversation_features :: "bool \<Rightarrow> row list \<Rightarrow> py_error + features list" where
  "conversation_features has_is_system raw =
     (case assign_conversations (preprocess has_is_system raw) of
        Inl e \<Rightarrow> Inl e
      | Inr convos \<Rightarrow> Inr (compute_features convos))"

text \<open>The number of messages of a conversation that come before its first purchase
  event, in the order of the conversation.\<close>

definition messages_preceding_first_purchase :: "convo_row list \<Rightarrow> int" where
  "messages_preceding_first_purchase grp = int (length (takeWhile (\<lambda>r. \<not> purchase (ev r)) grp))"

text \<open>A log in which the messages of two fans alternate, with the default labels
  0, 1, 2: fan A writes, fan B writes, fan A buys an hour later.\<close>

definition interleaved_log :: "row list" where
  "interleaved_log =
     [chat 0 ''A'' ''M'' 0 ''0'', chat 1 ''B'' ''M'' 0 ''0'', chat 2 ''A'' ''M'' (hours 1) ''1'']"

section \<open>stage\_segmentation.py\<close>

text \<open>
  \<^verbatim>\<open>load_data\<close> renames the columns, adds \<open>fan_model_id\<close> and sorts; it builds no
  conversation column, and the \<^verbatim>\<open>purchase\<close> column is the log's boolean column as it
  is. \<^verbatim>\<open>assign_stages\<close> therefore works on rows of type \<^typ>\<open>event\<close>.
\<close>

datatype stage = stage_1 | stage_2 | stage_3

text \<open>
  \<^verbatim>\<open>group.sort_values(by="timestamp")\<close> sorts one column with the default algorithm, which
  does not promise an order for rows of equal timestamps. The sort is therefore an
  argument of the model: any function that returns its input ordered by timestamp.
\<close>

type_synonym sorter = "event list \<Rightarrow> event list"

definition timestamp_sort :: "sorter \<Rightarrow> event list \<Rightarrow> bool" where
  "timestamp_sort sort_values g =
     (sorted (map timestamp (sort_values g)) \<and> mset (sort_values g) = mset g)"

text \<open>The body of the loop: one group of \<^verbatim>\<open>df.groupby("fan_model_id")\<close>, returned with
  the new \<^verbatim>\<open>stage\<close> column.\<close>

definition stage_group :: "sorter \<Rightarrow> event list \<Rightarrow> (event \<times> stage) list" where
  "stage_group sort_values g =
     (let grp = sort_values g;
          purchase_times = map timestamp (filter purchase grp)
      in if purchase_times = [] then map (\<lambda>e. (e, stage_1)) grp
         else
           let first_purchase = hd purchase_times;
               last_purchase = last purchase_times;
               stage1 = map (\<lambda>e. (e, stage_1)) (filter (\<lambda>e. timestamp e \<le> first_purchase) grp);
               stage2 = (if first_purchase \<noteq> last_purchase
                         then map (\<lambda>e. (e, stage_2))
                                (filter (\<lambda>e. timestamp e > first_purchase \<and> timestamp e \<le> last_purchase) grp)
                         else []);
               stage3 = map (\<lambda>e. (e, stage_3)) (filter (\<lambda>e. timestamp e > last_purchase) grp)
           in stage1 @ (if stage2 \<noteq> [] then stage2 else []) @ (if stage3 \<noteq> [] then stage3 else []))"

text \<open>The frames collected by the loop, one for each key in sorted order.\<close>

definition all_stage_rows :: "sorter \<Rightarrow> event list \<Rightarrow> (event \<times> stage) list list" where
  "all_stage_rows sort_values df =
     map (\<lambda>k. stage_group sort_values (filter (\<lambda>e. fan_model_id e = k) df))
       (sort (remdups (map fan_model_id df)))"

text \<open>\<^verbatim>\<open>pd.concat\<close> of no frames raises \<^verbatim>\<open>ValueError\<close>; that happens for the empty log.\<close>

definition assign_stages :: "sorter \<Rightarrow> event list \<Rightarrow> py_error + (event \<times> stage) list" where
  "assign_stages sort_values df =
     (if all_stage_rows sort_values df = [] then Inl ValueError
      else Inr (concat (all_stage_rows sort_values df)))"

text \<open>The rule of the specification: the stage of a timestamp relative to the first and
  the last purchase timestamp.\<close>

definition spec_stage :: "int \<Rightarrow> int \<Rightarrow> int \<Rightarrow> stage" where
  "spec_stage first_p last_p t =
     (if t \<le> first_p then stage_1 else if t \<le> last_p then stage_2 else stage_3)"

text \<open>Sample groups: no purchase; one purchase; purchases at 0 and 10 with messages at
  -1, 5 and 15; a group with two messages at one timestamp; and two logs of one fan and one model whose two messages lie five hours
  apart, differing only in whether the first message is a purchase.\<close>

definition no_purchase_group :: "event list" where
  "no_purchase_group = [clean (chat 0 ''f'' ''m'' 0 ''0''), clean (chat 1 ''f'' ''m'' 7 ''0'')]"

definition one_purchase_group :: "event list" where
  "one_purchase_group =
     [clean (chat 0 ''f'' ''m'' 0 ''0''), clean (chat 1 ''f'' ''m'' 3 ''1''), clean (chat 2 ''f'' ''m'' 7 ''0'')]"

definition two_purchase_group :: "event list" where
  "two_purchase_group =
     [clean (chat 0 ''f'' ''m'' (- 1) ''0''), clean (chat 1 ''f'' ''m'' 0 ''1''),
      clean (chat 2 ''f'' ''m'' 5 ''0''), clean (chat 3 ''f'' ''m'' 10 ''1''),
      clean (chat 4 ''f'' ''m'' 15 ''0'')]"

definition tied_group :: "event list" where
  "tied_group =
     [clean (chat 0 ''f'' ''m'' 5 ''0''), clean (chat 1 ''f'' ''m'' 5 ''1''), clean (chat 2 ''f'' ''m'' 9 ''0'')]"

text \<open>A sort that puts later rows first among equal timestamps.\<close>

definition reversing_sort :: sorter where
  "reversing_sort g = sort_key timestamp (rev g)"

definition purchase_then_silence :: "event list" where
  "purchase_then_silence =
     [clean (chat 0 ''f'' ''m'' 0 ''1''), clean (chat 1 ''f'' ''m'' (hours 5) ''0'')]"

definition silence_only :: "event list" where
  "silence_only =
     [clean (chat 0 ''f'' ''m'' 0 ''0''), clean (chat 1 ''f'' ''m'' (hours 5) ''0'')]"

section \<open>fan\_profiler.py\<close>

subsection \<open>The cache key\<close>

text \<open>
  \<^verbatim>\<open>hashlib.md5(text.encode()).hexdigest()\<close>. The digest is MD5 as RFC 1321 defines it,
  on 32-bit words; the text is its byte sequence, which is what \<^verbatim>\<open>encode\<close> returns.
\<close>

type_synonym u32 = "32 word"

definition md5_s :: "nat list" where
  "md5_s = [7, 12, 17, 22, 7, 12, 17, 22, 7, 12, 17, 22, 7, 12, 17, 22,
            5, 9, 14, 20, 5, 9, 14, 20, 5, 9, 14, 20, 5, 9, 14, 20,
            4, 11, 16, 23, 4, 11, 16, 23, 4, 11, 16, 23, 4, 11, 16, 23,
            6, 10, 15, 21, 6, 10, 15, 21, 6, 10, 15, 21, 6, 10, 15, 21]"

definition md5_K :: "u32 list" where
  "md5_K = [0xd76aa478, 0xe8c7b756, 0x242070db, 0xc1bdceee, 0xf57c0faf, 0x4787c62a,
            0xa8304613, 0xfd469501, 0x698098d8, 0x8b44f7af, 0xffff5bb1, 0x895cd7be,
            0x6b901122, 0xfd987193, 0xa679438e, 0x49b40821, 0xf61e2562, 0xc040b340,
            0x265e5a51, 0xe9b6c7aa, 0xd62f105d, 0x02441453, 0xd8a1e681, 0xe7d3fbc8,
            0x21e1cde6, 0xc33707d6, 0xf4d50d87, 0x455a14ed, 0xa9e3e905, 0xfcefa3f8,
            0x676f02d9, 0x8d2a4c8a, 0xfffa3942, 0x8771f681, 0x6d9d6122, 0xfde5380c,
            0xa4beea44, 0x4bdecfa9, 0xf6bb4b60, 0xbebfbc70, 0x289b7ec6, 0xeaa127fa,
            0xd4ef3085, 0x04881d05, 0xd9d4d039, 0xe6db99e5, 0x1fa27cf8, 0xc4ac5665,
            0xf4292244, 0x432aff97, 0xab9423a7, 0xfc93a039, 0x655b59c3, 0x8f0ccc92,
            0xffeff47d, 0x85845dd1, 0x6fa87e4f, 0xfe2ce6e0, 0xa3014314, 0x4e0811a1,
            0xf7537e82, 0xbd3af235, 0x2ad7d2bb, 0xeb86d391]"

definition leftrotate :: "u32 \<Rightarrow> nat \<Rightarrow> u32" where
  "leftrotate x c = push_bit c x OR drop_bit (32 - c) x"

definition md5_F :: "nat \<Rightarrow> u32 \<Rightarrow> u32 \<Rightarrow> u32 \<Rightarrow> u32" where
  "md5_F i B C D =
     (if i < 16 then (B AND C) OR (NOT B AND D)
      else if i < 32 then (D AND B) OR (NOT D AND C)
      else if i < 48 then B XOR C XOR D
      else C XOR (B OR NOT D))"

definition md5_g :: "nat \<Rightarrow> nat" where
  "md5_g i =
     (if i < 16 then i
      else if i < 32 then (5 * i + 1) mod 16
      else if i < 48 then (3 * i + 5) mod 16
      else (7 * i) mod 16)"

fun md5_step :: "u32 list \<Rightarrow> u32 \<times> u32 \<times> u32 \<times> u32 \<Rightarrow> nat \<Rightarrow> u32 \<times> u32 \<times> u32 \<times> u32" where
  "md5_step M (A, B, C, D) i =
     (D, B + leftrotate (md5_F i B C D + A + md5_K ! i + M ! md5_g i) (md5_s ! i), B, C)"

fun md5_add :: "u32 \<times> u32 \<times> u32 \<times> u32 \<Rightarrow> u32 \<times> u32 \<times> u32 \<times> u32 \<Rightarrow> u32 \<times> u32 \<times> u32 \<times> u32" where
  "md5_add (a0, b0, c0, d0) (A, B, C, D) = (a0 + A, b0 + B, c0 + C, d0 + D)"

definition md5_block :: "u32 \<times> u32 \<times> u32 \<times> u32 \<Rightarrow> u32 list \<Rightarrow> u32 \<times> u32 \<times> u32 \<times> u32" where
  "md5_block h M = md5_add h (foldl (md5_step M) h [0..<64])"

text \<open>Four bytes to a word, little-endian; a block is 64 bytes.\<close>

fun le_words :: "nat list \<Rightarrow> u32 list" where
  "le_words (b0 # b1 # b2 # b3 # bs) =
     word_of_nat (b0 + 256 * b1 + 65536 * b2 + 16777216 * b3) # le_words bs"
| "le_words bs = []"

function chunks :: "nat list \<Rightarrow> nat list list" where
  "chunks bs = (if bs = [] then [] else take 64 bs # chunks (drop 64 bs))"
  by pat_completeness auto
termination
  by (relation "measure length") auto

declare chunks.simps [simp del]

definition le_bytes :: "nat \<Rightarrow> nat \<Rightarrow> nat list" where
  "le_bytes n x = map (\<lambda>i. (x div 256 ^ i) mod 256) [0..<n]"

text \<open>Padding: the byte 128, zeros up to 56 modulo 64, the bit length in eight bytes.\<close>

definition md5_pad :: "nat list \<Rightarrow> nat list" where
  "md5_pad bs = bs @ [128] @ replicate ((119 - length bs mod 64) mod 64) 0
                  @ le_bytes 8 ((8 * length bs) mod 2 ^ 64)"

fun state_bytes :: "u32 \<times> u32 \<times> u32 \<times> u32 \<Rightarrow> nat list" where
  "state_bytes (a, b, c, d) = concat (map (\<lambda>w. le_bytes 4 (unat w)) [a, b, c, d])"

definition md5_digest :: "nat list \<Rightarrow> nat list" where
  "md5_digest bs =
     state_bytes (foldl md5_block (0x67452301, 0xefcdab89, 0x98badcfe, 0x10325476)
                    (map le_words (chunks (md5_pad bs))))"

definition hex_digit :: "nat \<Rightarrow> char" where
  "hex_digit n = ''0123456789abcdef'' ! n"

definition hexdigest :: "nat list \<Rightarrow> string" where
  "hexdigest bs = concat (map (\<lambda>b. [hex_digit (b div 16), hex_digit (b mod 16)]) bs)"

definition get_hash :: "string \<Rightarrow> string" where
  "get_hash text = hexdigest (md5_digest (map of_char text))"

subsection \<open>Profiles and the cache\<close>

text \<open>
  JSON values as \<^verbatim>\<open>json.loads\<close> returns them: numbers as integers, and the float
  \<^verbatim>\<open>NaN\<close>, which \<^verbatim>\<open>json.loads\<close> accepts and \<^verbatim>\<open>json.dump\<close> writes (other floats are left
  out). A profile is a
  Python dict with string keys: an association list in insertion order, written to with
  \<^const>\<open>AList.update\<close>, which replaces the value of a present key in place and appends a
  new key.
\<close>

datatype json = JNull | JBool bool | JNumber int | JNaN | JString string
  | JArray "json list" | JObject "(string \<times> json) list"

type_synonym profile = "(string \<times> json) list"

text \<open>The cache directory: the file \<^verbatim>\<open>hash_key + ".json"\<close> holds the dict that was
  dumped to it. \<^verbatim>\<open>save_cache\<close> is only ever given dicts.\<close>

type_synonym cache = "string \<Rightarrow> profile option"

definition load_cache :: "cache \<Rightarrow> string \<Rightarrow> profile option" where
  "load_cache c hash_key = c hash_key"

definition save_cache :: "cache \<Rightarrow> string \<Rightarrow> profile \<Rightarrow> cache" where
  "save_cache c hash_key response = c(hash_key \<mapsto> response)"

definition key_map :: "(string \<times> string) list" where
  "key_map =
     [(''Age indicators'', ''age_indicators''),
      (''Job or career'', ''job_or_career''),
      (''Location hints'', ''location_hints''),
      (''Relationship status'', ''relationship_status''),
      (''Personality traits'', ''personality_traits''),
      (''Emotional needs'', ''emotional_needs''),
      (''Purchase motivations'', ''purchase_motivations''),
      (''Communication style'', ''communication_style''),
      (''Life events'', ''life_events'')]"

text \<open>\<^verbatim>\<open>key_map.get(k, k)\<close>\<close>

definition key_map_get :: "string \<Rightarrow> string" where
  "key_map_get k = (case map_of key_map k of Some k' \<Rightarrow> k' | None \<Rightarrow> k)"

text \<open>The dict comprehension of \<^verbatim>\<open>normalize_keys\<close>, on a dict.\<close>

definition normalize_dict :: "profile \<Rightarrow> profile" where
  "normalize_dict profile_dict =
     foldl (\<lambda>d (k, v). AList.update (key_map_get k) v d) [] profile_dict"

text \<open>\<^verbatim>\<open>normalize_keys\<close> on an element of the parsed array: anything but an object has
  no \<^verbatim>\<open>items\<close> and raises.\<close>

fun normalize_keys :: "json \<Rightarrow> py_error + profile" where
  "normalize_keys (JObject profile_dict) = Inr (normalize_dict profile_dict)"
| "normalize_keys _ = Inl AttributeError"

text \<open>\<^verbatim>\<open>prof['fan_model_id'] = fan_id\<close>\<close>

definition tag :: "string \<Rightarrow> profile \<Rightarrow> profile" where
  "tag fan prof = AList.update ''fan_model_id'' (JString fan) prof"

text \<open>\<^verbatim>\<open>{"fan_model_id": fan_id}\<close>\<close>

definition placeholder :: "string \<Rightarrow> profile" where
  "placeholder fan = [(''fan_model_id'', JString fan)]"

subsection \<open>Equality of profiles\<close>

text \<open>
  Python's \<^verbatim>\<open>==\<close> between two JSON values that are not the same object, such as a
  profile and the copy read back from its cache file. \<^verbatim>\<open>NaN\<close> equals nothing, a boolean
  equals the number 0 or 1, lists are compared position by position, and dicts, whatever
  their order, by size and by the value under each key.
\<close>

fun nan_free :: "json \<Rightarrow> bool" where
  "nan_free JNaN = False"
| "nan_free (JArray xs) = list_all nan_free xs"
| "nan_free (JObject kvs) = list_all (\<lambda>kv. nan_free (snd kv)) kvs"
| "nan_free _ = True"

fun distinct_keys :: "json \<Rightarrow> bool" where
  "distinct_keys (JArray xs) = list_all distinct_keys xs"
| "distinct_keys (JObject kvs) = (distinct (map fst kvs) \<and> list_all (\<lambda>kv. distinct_keys (snd kv)) kvs)"
| "distinct_keys _ = True"

fun py_eq :: "json \<Rightarrow> json \<Rightarrow> bool" where
  "py_eq JNull JNull = True"
| "py_eq (JBool a) (JBool b) = (a = b)"
| "py_eq (JBool a) (JNumber n) = ((if a then 1 else 0) = n)"
| "py_eq (JNumber n) (JBool a) = (n = (if a then 1 else 0))"
| "py_eq (JNumber m) (JNumber n) = (m = n)"
| "py_eq (JString s) (JString t) = (s = t)"
| "py_eq (JArray xs) (JArray ys) = list_all2 py_eq xs ys"
| "py_eq (JObject xs) (JObject ys) =
     (length xs = length ys \<and>
      list_all (\<lambda>kv. case map_of ys (fst kv) of None \<Rightarrow> False | Some w \<Rightarrow> py_eq (snd kv) w) xs)"
| "py_eq _ _ = False"

subsection \<open>call\_llm\_batch\<close>

text \<open>
  The service behind \<^verbatim>\<open>client.chat.completions.create\<close>: it keeps the requests it has
  received, and it answers a request as a function of the request and of the number of
  requests received before, so that it may answer the same request differently each time.
  The system message and the model name are the same in every request; a request is
  recorded by its user prompt.
\<close>

text \<open>
  What the call and the parsing of its answer come to. The request raises; or the answer
  holds no bracketed array; or \<^verbatim>\<open>json.loads\<close> (or the search itself) raises on it; or the
  bracketed text parses, and then to a JSON array, since it starts with a bracket.
\<close>

datatype llm_response = CallRaises | NoArrayFound | ParseFails | Parsed "json list"

record llm_service =
  respond :: "nat \<Rightarrow> string \<Rightarrow> llm_response"
  requests :: "string list"

definition chat_completions_create :: "llm_service \<Rightarrow> string \<Rightarrow> llm_response \<times> llm_service" where
  "chat_completions_create srv prompt =
     (respond srv (length (requests srv)) prompt, srv\<lparr>requests := requests srv @ [prompt]\<rparr>)"

definition nl :: string where
  "nl = [CHR 0x0A]"

text \<open>The prompt: three fixed paragraphs, then one paragraph for each conversation,
  numbered from 1.\<close>

definition prompt_header :: string where
  "prompt_header =
     ''You'' @ [CHR 0x27] @ ''re a fan profiler for a premium chat platform.'' @ nl @ nl
     @ ''For each fan conversation, extract:'' @ nl @ ''- Age indicators'' @ nl
     @ ''- Job or career'' @ nl @ ''- Location hints'' @ nl @ ''- Relationship status'' @ nl
     @ ''- Personality traits'' @ nl @ ''- Emotional needs'' @ nl @ ''- Purchase motivations'' @ nl
     @ ''- Communication style'' @ nl @ ''- Life events'' @ nl @ nl
     @ ''Return ONLY a JSON array of objects, one object per fan, no commentary, no markdown.''
     @ nl @ nl"

fun fan_paragraphs :: "nat \<Rightarrow> string list \<Rightarrow> string" where
  "fan_paragraphs i [] = []"
| "fan_paragraphs i (conv # convs) =
     ''Fan #'' @ str_nat i @ '' messages:'' @ nl @ conv @ nl @ nl @ fan_paragraphs (Suc i) convs"

definition batch_prompt :: "string list \<Rightarrow> string" where
  "batch_prompt conversations_list = prompt_header @ fan_paragraphs 1 conversations_list"

definition call_llm_batch :: "llm_service \<Rightarrow> string list \<Rightarrow> (py_error + json list) \<times> llm_service" where
  "call_llm_batch srv conversations_list =
     (case chat_completions_create srv (batch_prompt conversations_list) of (response, srv') \<Rightarrow>
        (case response of
           CallRaises \<Rightarrow> Inl ServiceError
         | NoArrayFound \<Rightarrow> Inr (map (\<lambda>_. JObject []) conversations_list)
         | ParseFails \<Rightarrow> Inr (map (\<lambda>_. JObject []) conversations_list)
         | Parsed profiles \<Rightarrow> Inr profiles,
         srv'))"

subsection \<open>profile\_fans\<close>

text \<open>The state the profiler works on: the cache directory and the service.\<close>

record pstate =
  cache :: cache
  service :: llm_service

text \<open>\<^verbatim>\<open>if cached:\<close> holds for a dict that is present and not empty.\<close>

definition is_hit :: "cache \<Rightarrow> string \<Rightarrow> bool" where
  "is_hit c text = (case load_cache c (get_hash text) of None \<Rightarrow> False | Some cached \<Rightarrow> cached \<noteq> [])"

text \<open>The first inner loop over \<^verbatim>\<open>zip(batch_texts, batch_ids)\<close>: the profiles served from
  the cache, the texts to query and their ids, each in batch order.\<close>

fun check_cache :: "cache \<Rightarrow> (string \<times> string) list \<Rightarrow> profile list \<times> string list \<times> string list" where
  "check_cache c [] = ([], [], [])"
| "check_cache c ((text, fan) # rest) =
     (case check_cache c rest of (final, to_query_texts, to_query_ids) \<Rightarrow>
        (case load_cache c (get_hash text) of
           None \<Rightarrow> (final, text # to_query_texts, fan # to_query_ids)
         | Some cached \<Rightarrow>
             if cached \<noteq> [] then (tag fan (normalize_dict cached) # final, to_query_texts, to_query_ids)
             else (final, text # to_query_texts, fan # to_query_ids)))"

text \<open>The loop over \<^verbatim>\<open>zip(new_profiles, to_query_ids, to_query_texts)\<close> inside the
  \<^verbatim>\<open>try\<close>. It stops at the first element that raises; what it saved and appended
  before stays. The flag says whether it raised.\<close>

fun store_profiles :: "(json \<times> string \<times> string) list \<Rightarrow> cache \<Rightarrow> profile list
    \<Rightarrow> bool \<times> cache \<times> profile list" where
  "store_profiles [] c final = (False, c, final)"
| "store_profiles ((prof, fan, text) # rest) c final =
     (case normalize_keys prof of
        Inl e \<Rightarrow> (True, c, final)
      | Inr d \<Rightarrow> store_profiles rest (save_cache c (get_hash text) (tag fan d))
                  (final @ [tag fan d]))"

text \<open>One round of the loop over the batches.\<close>

definition process_batch :: "pstate \<Rightarrow> (string \<times> string) list \<Rightarrow> pstate \<times> profile list" where
  "process_batch st batch =
     (case check_cache (cache st) batch of (final, to_query_texts, to_query_ids) \<Rightarrow>
        if to_query_texts = [] then (st, final)
        else
          (case call_llm_batch (service st) to_query_texts of
             (Inl e, srv') \<Rightarrow>
               (\<lparr>cache = cache st, service = srv'\<rparr>, final @ map placeholder to_query_ids)
           | (Inr new_profiles, srv') \<Rightarrow>
               (case store_profiles (zip new_profiles (zip to_query_ids to_query_texts)) (cache st) final of
                  (raised, c, final') \<Rightarrow>
                    (\<lparr>cache = c, service = srv'\<rparr>,
                     if raised then final' @ map placeholder to_query_ids else final'))))"

fun run_batches :: "pstate \<Rightarrow> (string \<times> string) list list \<Rightarrow> pstate \<times> profile list" where
  "run_batches st [] = (st, [])"
| "run_batches st (batch # rest) =
     (case process_batch st batch of (st', final) \<Rightarrow>
        (case run_batches st' rest of (st'', profiles) \<Rightarrow> (st'', final @ profiles)))"

definition BATCH_SIZE :: nat where
  "BATCH_SIZE = 20"

text \<open>\<^verbatim>\<open>xs[i:i + BATCH_SIZE]\<close> for \<^verbatim>\<open>i\<close> in \<^verbatim>\<open>range(0, len(xs), BATCH_SIZE)\<close>\<close>

function batches :: "'a list \<Rightarrow> 'a list list" where
  "batches xs = (if xs = [] then [] else take BATCH_SIZE xs # batches (drop BATCH_SIZE xs))"
  by pat_completeness auto
termination
  by (relation "measure length") (auto simp: BATCH_SIZE_def)

declare batches.simps [simp del]

text \<open>\<^verbatim>\<open>"\n".join(...)\<close>\<close>

fun join_lines :: "string list \<Rightarrow> string" where
  "join_lines [] = []"
| "join_lines [x] = x"
| "join_lines (x # y # ys) = x @ [CHR 0x0A] @ join_lines (y # ys)"

text \<open>The groups of \<^verbatim>\<open>groupby("fan_model_id")\<close> in sorted key order, each with the text of
  its messages that are not missing.\<close>

definition fan_texts :: "event list \<Rightarrow> (string \<times> string) list" where
  "fan_texts convos_df =
     map (\<lambda>fan. (join_lines (List.map_filter fan_message
                         (filter (\<lambda>e. fan_model_id e = fan) convos_df)), fan))
       (sort (remdups (map fan_model_id convos_df)))"

definition profile_fans :: "pstate \<Rightarrow> event list \<Rightarrow> pstate \<times> profile list" where
  "profile_fans st convos_df = run_batches st (batches (fan_texts convos_df))"

text \<open>The fans of a batch that the cache does not serve.\<close>

definition uncached :: "cache \<Rightarrow> (string \<times> string) list \<Rightarrow> (string \<times> string) list" where
  "uncached c batch = filter (\<lambda>(text, fan). \<not> is_hit c text) batch"

definition served :: "cache \<Rightarrow> (string \<times> string) list \<Rightarrow> profile list" where
  "served c batch =
     map (\<lambda>(text, fan). tag fan (normalize_dict (the (load_cache c (get_hash text)))))
       (filter (\<lambda>(text, fan). is_hit c text) batch)"

text \<open>The answer that the service gives to the request for the uncached fans of a
  batch.\<close>

definition next_reply :: "pstate \<Rightarrow> (string \<times> string) list \<Rightarrow> llm_response" where
  "next_reply st batch =
     respond (service st) (length (requests (service st)))
       (batch_prompt (map fst (uncached (cache st) batch)))"

subsection \<open>Sample states, batches and services\<close>

text \<open>An empty cache directory; a directory that holds a profile for the text \<open>''a b''\<close>;
  a batch of five fans of whom three have that text and two the text \<open>''a  b''\<close>; services
  that raise, answer without an array, answer with one object, with an object and a
  \<^verbatim>\<open>null\<close>, and with a single \<^verbatim>\<open>null\<close>; a log of two fans.\<close>

definition cold :: "(nat \<Rightarrow> string \<Rightarrow> llm_response) \<Rightarrow> pstate" where
  "cold r = \<lparr>cache = (\<lambda>h. None), service = \<lparr>respond = r, requests = []\<rparr>\<rparr>"

definition warm :: "(nat \<Rightarrow> string \<Rightarrow> llm_response) \<Rightarrow> pstate" where
  "warm r = \<lparr>cache = save_cache (\<lambda>h. None) (get_hash ''a b'')
                    [(''age_indicators'', JString ''30s''), (''fan_model_id'', JString ''f1'')],
              service = \<lparr>respond = r, requests = []\<rparr>\<rparr>"

definition five_fans :: "(string \<times> string) list" where
  "five_fans = [(''a b'', ''f1''), (''a  b'', ''f2''), (''a b'', ''f3''), (''a  b'', ''f4''), (''a b'', ''f5'')]"

definition srv_raises :: "nat \<Rightarrow> string \<Rightarrow> llm_response" where
  "srv_raises n prompt = CallRaises"


definition srv_one_object :: "nat \<Rightarrow> string \<Rightarrow> llm_response" where
  "srv_one_object n prompt = Parsed [JObject [(''Age indicators'', JString ''30s'')]]"

definition srv_object_then_null :: "nat \<Rightarrow> string \<Rightarrow> llm_response" where
  "srv_object_then_null n prompt = Parsed [JObject [], JNull]"


definition two_fans :: "event list" where
  "two_fans = [clean (chat 0 ''f1'' ''m'' 0 ''0''), clean (chat 1 ''f2'' ''m'' 0 ''0'')]"

text \<open>Two texts of printable characters with the same MD5 digest.\<close>

definition colliding_text_A :: string where
  "colliding_text_A = ''TEXTCOLLBYfGiJUETHQ4hAcKSMd5zYpgqf1YRDhkmxHkhPWptrkoyz28wnI9V0aHeAuaKnak''"

definition colliding_text_B :: string where
  "colliding_text_B = ''TEXTCOLLBYfGiJUETHQ4hEcKSMd5zYpgqf1YRDhkmxHkhPWptrkoyz28wnI9V0aHeAuaKnak''"

text \<open>The cache after a sequence of stores into the empty directory.\<close>

definition stored :: "(string \<times> profile) list \<Rightarrow> cache" where
  "stored stores = foldl (\<lambda>c (text, p). save_cache c (get_hash text) p) (\<lambda>h. None) stores"

section \<open>Properties of assign\_conversations\<close>

lemma time_gap_None: "time_gap t None = False"
  by (simp add: time_gap_def time_diff_def)

lemma time_gap_Some: "time_gap t (Some t') = (t - t' > four_hours)"
  by (simp add: time_gap_def time_diff_def four_hours_def)

lemma length_shift_from: "length (shift_from m kvs) = length kvs"
  by (induction kvs arbitrary: m) auto

lemma shift_from_append:
  "shift_from m (xs @ ys) = shift_from m xs @ shift_from (fold (\<lambda>(k, v) m. m(k \<mapsto> v)) xs m) ys"
  by (induction xs arbitrary: m) auto

lemma fold_upd_other:
  "k \<notin> fst ` set xs \<Longrightarrow> fold (\<lambda>(k, v) m. m(k \<mapsto> v)) xs m k = m k"
  by (induction xs arbitrary: m) auto

lemma shift_from_first:
  "k \<notin> fst ` set pre \<Longrightarrow> shift_from m (pre @ (k, v) # post) ! length pre = m k"
  by (simp add: shift_from_append nth_append length_shift_from fold_upd_other)

lemma shift_from_next:
  assumes "k \<notin> fst ` set mid"
  shows "shift_from m (pre @ (k, v) # mid @ (k, v') # post) ! Suc (length pre + length mid) = Some v"
proof -
  have "pre @ (k, v) # mid @ (k, v') # post = (pre @ (k, v) # mid) @ (k, v') # post"
    by simp
  moreover have "shift_from m ((pre @ (k, v) # mid) @ (k, v') # post) ! length (pre @ (k, v) # mid)
        = fold (\<lambda>(k, v) m. m(k \<mapsto> v)) (pre @ (k, v) # mid) m k"
    by (simp only: shift_from_append) (simp add: nth_append length_shift_from)
  moreover have "fold (\<lambda>(k, v) m. m(k \<mapsto> v)) (pre @ (k, v) # mid) m k = Some v"
    using assms by (simp add: fold_upd_other)
  ultimately show ?thesis by simp
qed

lemma length_cumsum_from: "length (cumsum_from c kbs) = length kbs"
  by (induction kbs arbitrary: c) (auto simp: Let_def)

lemma cumsum_from_append:
  "cumsum_from c (xs @ ys) = cumsum_from c xs
     @ cumsum_from (fold (\<lambda>(k, b) c. c(k := c k + (if b then 1 else 0))) xs c) ys"
  by (induction xs arbitrary: c) (auto simp: Let_def)

lemma fold_count_other:
  "k \<notin> fst ` set xs \<Longrightarrow> fold (\<lambda>(k, b) c. c(k := c k + (if b then 1 else 0))) xs c k = c k"
  by (induction xs arbitrary: c) auto

lemma cumsum_from_first:
  "k \<notin> fst ` set pre \<Longrightarrow>
   cumsum_from c (pre @ (k, b) # post) ! length pre = c k + (if b then 1 else 0)"
  by (simp add: cumsum_from_append nth_append length_cumsum_from fold_count_other Let_def)

lemma cumsum_from_at:
  "cumsum_from c (pre @ (k, b) # post) ! length pre
     = fold (\<lambda>(k, b) c. c(k := c k + (if b then 1 else 0))) (pre @ [(k, b)]) c k"
  by (simp add: cumsum_from_append nth_append length_cumsum_from Let_def)

lemma cumsum_from_next:
  assumes "k \<notin> fst ` set mid"
  shows "cumsum_from c (pre @ (k, b) # mid @ (k, b') # post) ! Suc (length pre + length mid)
       = cumsum_from c (pre @ (k, b) # mid @ (k, b') # post) ! length pre + (if b' then 1 else 0)"
proof -
  let ?step = "\<lambda>(k, b) c. c(k := c k + (if b then (1::nat) else 0))"
  have "cumsum_from c ((pre @ (k, b) # mid) @ (k, b') # post) ! length (pre @ (k, b) # mid)
        = fold ?step ((pre @ (k, b) # mid) @ [(k, b')]) c k"
    by (rule cumsum_from_at)
  moreover have "fold ?step ((pre @ (k, b) # mid) @ [(k, b')]) c k
        = fold ?step (pre @ [(k, b)]) c k + (if b' then 1 else 0)"
    using assms by (simp add: fold_count_other)
  ultimately show ?thesis
    by (simp add: cumsum_from_at)
qed

lemma split_at_two:
  assumes "i < j" "j < length xs"
  shows "xs = take i xs @ xs ! i # take (j - Suc i) (drop (Suc i) xs) @ xs ! j # drop (Suc j) xs"
proof -
  have a: "xs = take i xs @ xs ! i # drop (Suc i) xs"
    using assms by (simp add: id_take_nth_drop)
  have "j - Suc i < length (drop (Suc i) xs)" using assms by simp
  then have "drop (Suc i) xs = take (j - Suc i) (drop (Suc i) xs)
       @ drop (Suc i) xs ! (j - Suc i) # drop (Suc (j - Suc i)) (drop (Suc i) xs)"
    by (rule id_take_nth_drop)
  moreover have "drop (Suc i) xs ! (j - Suc i) = xs ! j" using assms by simp
  moreover have "drop (Suc (j - Suc i)) (drop (Suc i) xs) = drop (Suc j) xs" using assms by simp
  ultimately have "drop (Suc i) xs = take (j - Suc i) (drop (Suc i) xs) @ xs ! j # drop (Suc j) xs"
    by simp
  with a show ?thesis by metis
qed

lemma between_keys:
  assumes "i < j" "j < length xs" "\<forall>l. i < l \<and> l < j \<longrightarrow> fst (xs ! l) \<noteq> k"
  shows "k \<notin> fst ` set (take (j - Suc i) (drop (Suc i) xs))"
proof
  assume "k \<in> fst ` set (take (j - Suc i) (drop (Suc i) xs))"
  then obtain p where p: "p \<in> set (take (j - Suc i) (drop (Suc i) xs))" "fst p = k" by auto
  then obtain n where n: "n < length (take (j - Suc i) (drop (Suc i) xs))"
      "take (j - Suc i) (drop (Suc i) xs) ! n = p"
    by (auto simp: in_set_conv_nth)
  then have "n < j - Suc i" by simp
  then have "p = xs ! (Suc i + n)" using n assms by simp
  moreover have "i < Suc i + n \<and> Suc i + n < j" using \<open>n < j - Suc i\<close> by arith
  ultimately show False using assms(3) p(2) by blast
qed

lemma before_keys:
  assumes "i < length xs" "\<forall>l. l < i \<longrightarrow> fst (xs ! l) \<noteq> k"
  shows "k \<notin> fst ` set (take i xs)"
proof
  assume "k \<in> fst ` set (take i xs)"
  then obtain p where p: "p \<in> set (take i xs)" "fst p = k" by auto
  then obtain n where n: "n < length (take i xs)" "take i xs ! n = p"
    by (auto simp: in_set_conv_nth)
  then have "n < i" "p = xs ! n" by simp_all
  then show False using assms(2) p(2) by blast
qed

lemma shift_from_nth_first:
  assumes "i < length kvs" "\<forall>l. l < i \<longrightarrow> fst (kvs ! l) \<noteq> fst (kvs ! i)"
  shows "shift_from m kvs ! i = m (fst (kvs ! i))"
proof -
  have "kvs = take i kvs @ (fst (kvs ! i), snd (kvs ! i)) # drop (Suc i) kvs"
    using assms(1) by (simp add: id_take_nth_drop)
  moreover have "fst (kvs ! i) \<notin> fst ` set (take i kvs)"
    using assms by (rule before_keys)
  moreover have "length (take i kvs) = i" using assms(1) by simp
  ultimately show ?thesis by (metis shift_from_first)
qed

lemma shift_from_nth_next:
  assumes "i < j" "j < length kvs" "fst (kvs ! i) = fst (kvs ! j)"
    "\<forall>l. i < l \<and> l < j \<longrightarrow> fst (kvs ! l) \<noteq> fst (kvs ! j)"
  shows "shift_from m kvs ! j = Some (snd (kvs ! i))"
proof -
  let ?k = "fst (kvs ! j)"
  let ?pre = "take i kvs" and ?mid = "take (j - Suc i) (drop (Suc i) kvs)"
  have e1: "(?k, snd (kvs ! i)) = kvs ! i" using assms(3) by (metis prod.collapse)
  have e2: "(?k, snd (kvs ! j)) = kvs ! j" by simp
  have "kvs = ?pre @ (?k, snd (kvs ! i)) # ?mid @ (?k, snd (kvs ! j)) # drop (Suc j) kvs"
    unfolding e1 e2 by (rule split_at_two [OF assms(1,2)])
  moreover have "?k \<notin> fst ` set ?mid"
    using assms(1,2,4) by (rule between_keys)
  moreover have "Suc (length ?pre + length ?mid) = j" using assms(1,2) by simp
  ultimately show ?thesis by (metis shift_from_next)
qed

lemma cumsum_from_nth_first:
  assumes "i < length kbs" "\<forall>l. l < i \<longrightarrow> fst (kbs ! l) \<noteq> fst (kbs ! i)"
  shows "cumsum_from c kbs ! i = c (fst (kbs ! i)) + (if snd (kbs ! i) then 1 else 0)"
proof -
  have "kbs = take i kbs @ (fst (kbs ! i), snd (kbs ! i)) # drop (Suc i) kbs"
    using assms(1) by (simp add: id_take_nth_drop)
  moreover have "fst (kbs ! i) \<notin> fst ` set (take i kbs)"
    using assms by (rule before_keys)
  moreover have "length (take i kbs) = i" using assms(1) by simp
  ultimately show ?thesis by (metis cumsum_from_first)
qed

lemma cumsum_from_nth_next:
  assumes "i < j" "j < length kbs" "fst (kbs ! i) = fst (kbs ! j)"
    "\<forall>l. i < l \<and> l < j \<longrightarrow> fst (kbs ! l) \<noteq> fst (kbs ! j)"
  shows "cumsum_from c kbs ! j = cumsum_from c kbs ! i + (if snd (kbs ! j) then 1 else 0)"
proof -
  let ?k = "fst (kbs ! j)"
  let ?pre = "take i kbs" and ?mid = "take (j - Suc i) (drop (Suc i) kbs)"
  have e1: "(?k, snd (kbs ! i)) = kbs ! i" using assms(3) by (metis prod.collapse)
  have e2: "(?k, snd (kbs ! j)) = kbs ! j" by simp
  have "kbs = ?pre @ (?k, snd (kbs ! i)) # ?mid @ (?k, snd (kbs ! j)) # drop (Suc j) kbs"
    unfolding e1 e2 by (rule split_at_two [OF assms(1,2)])
  moreover have "?k \<notin> fst ` set ?mid"
    using assms(1,2,4) by (rule between_keys)
  moreover have "Suc (length ?pre + length ?mid) = j" "length ?pre = i" using assms(1,2) by simp_all
  ultimately show ?thesis by (metis cumsum_from_next)
qed

lemma length_group_shift: "length (group_shift ks vs) = min (length ks) (length vs)"
  by (simp add: group_shift_def length_shift_from)

lemma length_new_convo_flags:
  "length ks = n \<Longrightarrow> length ms = n \<Longrightarrow> length ts = n \<Longrightarrow> length (new_convo_flags ks ms ts) = n"
  by (simp add: new_convo_flags_def length_group_shift)

lemma length_convo_ids:
  "length ks = n \<Longrightarrow> length ms = n \<Longrightarrow> length ts = n \<Longrightarrow> length (convo_ids ks ms ts) = n"
  by (simp add: convo_ids_def group_cumsum_def length_cumsum_from length_new_convo_flags)

lemma length_conversation_rows: "length (conversation_rows df) = length df"
  by (simp add: conversation_rows_def Let_def length_group_shift length_new_convo_flags
      length_convo_ids)

lemma conversation_rows_nth:
  assumes "i < length df"
  shows "conversation_rows df ! i =
     \<lparr>ev = df ! i,
      prev_model = group_shift (map fan_model_id df) (map model_id df) ! i,
      prev_time = group_shift (map fan_model_id df) (map timestamp df) ! i,
      new_convo = new_convo_flags (map fan_model_id df) (map model_id df) (map timestamp df) ! i,
      convo_id = convo_ids (map fan_model_id df) (map model_id df) (map timestamp df) ! i,
      conversation_id = fan_model_id (df ! i) @ ''_C''
        @ str_nat (convo_ids (map fan_model_id df) (map model_id df) (map timestamp df) ! i)\<rparr>"
  using assms
  by (simp add: conversation_rows_def Let_def length_group_shift length_new_convo_flags
      length_convo_ids)

lemma new_convo_flags_nth:
  assumes "i < length df"
  shows "new_convo_flags (map fan_model_id df) (map model_id df) (map timestamp df) ! i =
     (model_switch (model_id (df ! i)) (group_shift (map fan_model_id df) (map model_id df) ! i) \<or>
      time_gap (timestamp (df ! i)) (group_shift (map fan_model_id df) (map timestamp df) ! i))"
  using assms by (simp add: new_convo_flags_def length_group_shift)

lemma group_shift_first:
  assumes "first_of_group df i"
  shows "group_shift (map fan_model_id df) (map f df) ! i = None"
proof -
  let ?kvs = "zip (map fan_model_id df) (map f df)"
  have "i < length ?kvs" using assms by (simp add: first_of_group_def)
  moreover have "\<forall>l. l < i \<longrightarrow> fst (?kvs ! l) \<noteq> fst (?kvs ! i)"
    using assms by (simp add: first_of_group_def)
  ultimately have "shift_from (\<lambda>k. None) ?kvs ! i = None"
    by (simp add: shift_from_nth_first)
  then show ?thesis by (simp add: group_shift_def)
qed

lemma group_shift_next:
  assumes "consecutive_in_group df i j"
  shows "group_shift (map fan_model_id df) (map f df) ! j = Some (f (df ! i))"
proof -
  let ?kvs = "zip (map fan_model_id df) (map f df)"
  have "i < j" "j < length ?kvs" "fst (?kvs ! i) = fst (?kvs ! j)"
    using assms by (simp_all add: consecutive_in_group_def)
  moreover have "\<forall>l. i < l \<and> l < j \<longrightarrow> fst (?kvs ! l) \<noteq> fst (?kvs ! j)"
    using assms by (simp add: consecutive_in_group_def)
  ultimately have "shift_from (\<lambda>k. None) ?kvs ! j = Some (snd (?kvs ! i))"
    by (rule shift_from_nth_next)
  moreover have "snd (?kvs ! i) = f (df ! i)"
    using assms by (simp add: consecutive_in_group_def)
  ultimately show ?thesis by (simp add: group_shift_def)
qed

lemma new_convo_first:
  assumes "first_of_group df i"
  shows "new_convo_flags (map fan_model_id df) (map model_id df) (map timestamp df) ! i"
proof -
  have "i < length df" using assms by (simp add: first_of_group_def)
  then show ?thesis
    by (simp add: new_convo_flags_nth group_shift_first [OF assms] model_switch_def time_gap_None)
qed

lemma new_convo_next:
  assumes "consecutive_in_group df i j"
  shows "new_convo_flags (map fan_model_id df) (map model_id df) (map timestamp df) ! j =
     (model_id (df ! j) \<noteq> model_id (df ! i) \<or> timestamp (df ! j) - timestamp (df ! i) > four_hours)"
proof -
  have "j < length df" using assms by (simp add: consecutive_in_group_def)
  then show ?thesis
    by (simp add: new_convo_flags_nth group_shift_next [OF assms] model_switch_def time_gap_Some)
qed

lemma convo_ids_first:
  assumes "first_of_group df i"
  shows "convo_ids (map fan_model_id df) (map model_id df) (map timestamp df) ! i = 1"
proof -
  let ?fl = "new_convo_flags (map fan_model_id df) (map model_id df) (map timestamp df)"
  let ?kbs = "zip (map fan_model_id df) ?fl"
  have len: "length ?fl = length df" by (simp add: length_new_convo_flags)
  have i: "i < length df" using assms by (simp add: first_of_group_def)
  have "i < length ?kbs" using i len by simp
  moreover have "\<forall>l. l < i \<longrightarrow> fst (?kbs ! l) \<noteq> fst (?kbs ! i)"
    using assms len by (simp add: first_of_group_def)
  ultimately have "cumsum_from (\<lambda>k. 0) ?kbs ! i = 0 + (if snd (?kbs ! i) then 1 else 0)"
    by (rule cumsum_from_nth_first)
  moreover have "snd (?kbs ! i)" using i len new_convo_first [OF assms] by simp
  ultimately show ?thesis by (simp add: convo_ids_def group_cumsum_def)
qed

lemma convo_ids_next:
  assumes "consecutive_in_group df i j"
  shows "convo_ids (map fan_model_id df) (map model_id df) (map timestamp df) ! j =
     convo_ids (map fan_model_id df) (map model_id df) (map timestamp df) ! i +
     (if new_convo_flags (map fan_model_id df) (map model_id df) (map timestamp df) ! j
      then 1 else 0)"
proof -
  let ?fl = "new_convo_flags (map fan_model_id df) (map model_id df) (map timestamp df)"
  let ?kbs = "zip (map fan_model_id df) ?fl"
  have len: "length ?fl = length df" by (simp add: length_new_convo_flags)
  have ij: "i < j" "j < length df" using assms by (simp_all add: consecutive_in_group_def)
  have "i < j" "j < length ?kbs" "fst (?kbs ! i) = fst (?kbs ! j)"
    using assms len by (simp_all add: consecutive_in_group_def)
  moreover have "\<forall>l. i < l \<and> l < j \<longrightarrow> fst (?kbs ! l) \<noteq> fst (?kbs ! j)"
    using assms len by (simp add: consecutive_in_group_def)
  ultimately have "cumsum_from (\<lambda>k. 0) ?kbs ! j
      = cumsum_from (\<lambda>k. 0) ?kbs ! i + (if snd (?kbs ! j) then 1 else 0)"
    by (rule cumsum_from_nth_next)
  moreover have "snd (?kbs ! j) = ?fl ! j" using ij len by simp
  ultimately show ?thesis by (simp add: convo_ids_def group_cumsum_def)
qed

lemmas chat_simps = chat_def clean_def row.defs event.defs hours_def
  normalize_purchase_def upper_char_def purchase_tokens_def

lemmas convo_eval = assign_conversations_def gap_overflows_def time_diff_overflows_def
  conversation_rows_def convo_ids_def new_convo_flags_def group_shift_def
  group_cumsum_def model_switch_def time_gap_Some time_gap_None four_hours_def str_nat.simps
  digit_char_def

lemma str_nat_1: "str_nat (Suc 0) = ''1''"
  by (simp add: str_nat.simps digit_char_def)

lemma str_nat_2: "str_nat (Suc (Suc 0)) = ''2''"
  by (simp add: str_nat.simps digit_char_def)

lemma assign_conversations_Inr:
  "assign_conversations df = Inr rows \<Longrightarrow> rows = conversation_rows df \<and> \<not> gap_overflows df"
  by (auto simp: assign_conversations_def split: if_splits)

lemma assign_conversations_returns:
  "\<not> gap_overflows df \<Longrightarrow> assign_conversations df = Inr (conversation_rows df)"
  by (simp add: assign_conversations_def)

lemma two_event_stream:
  assumes "fan_model_id a = fan_model_id b" "model_id a = model_id b"
  shows "map conversation_id (conversation_rows [a, b]) =
     [fan_model_id a @ ''_C1'',
      fan_model_id a @ (if timestamp b - timestamp a > four_hours then ''_C2'' else ''_C1'')]"
  using assms
  by (simp add: conversation_rows_def convo_ids_def new_convo_flags_def group_shift_def
      group_cumsum_def model_switch_def time_gap_Some time_gap_None str_nat_1 str_nat_2)

lemma two_event_overflow:
  assumes "fan_model_id a = fan_model_id b"
  shows "gap_overflows [a, b] =
     (timestamp b - timestamp a > 2 ^ 63 - 1 \<or> timestamp b - timestamp a < - (2 ^ 63))"
  using assms by (simp add: gap_overflows_def group_shift_def time_diff_overflows_def)

text \<open>
  C6 (as the code has it). The function returns a frame unless a 64-bit difference of
  timestamps overflows. In the frame the per-group counter is a running count of the rows
  flagged as starting a conversation, and the first row of a group is always flagged (its
  previous model is missing). So the first row of every fan-model group has counter 1 and
  the identifier \<open>fan_model_id @ ''_C1''\<close>; from one row of a group to the next row of
  the same group the counter goes up by exactly one if the later row is flagged and stays
  as it is otherwise.
\<close>

theorem conversation_counter_starts_at_one:
  "(\<not> gap_overflows df \<longrightarrow> (\<exists>rows. assign_conversations df = Inr rows)) \<and>
   (assign_conversations df = Inr rows \<longrightarrow>
      (first_of_group df i \<longrightarrow>
         convo_id (rows ! i) = 1 \<and>
         conversation_id (rows ! i) = fan_model_id (df ! i) @ ''_C1'') \<and>
      (consecutive_in_group df i' j \<longrightarrow>
         convo_id (rows ! j) = convo_id (rows ! i') + (if new_convo (rows ! j) then 1 else 0)))"
proof (intro conjI impI)
  assume "\<not> gap_overflows df"
  then show "\<exists>rows. assign_conversations df = Inr rows"
    by (simp add: assign_conversations_returns)
next
  assume "assign_conversations df = Inr rows" and f: "first_of_group df i"
  then have r: "rows = conversation_rows df" by (simp add: assign_conversations_Inr)
  have i: "i < length df" using f by (simp add: first_of_group_def)
  show "convo_id (rows ! i) = 1"
    by (simp add: r conversation_rows_nth [OF i] convo_ids_first [OF f])
  show "conversation_id (rows ! i) = fan_model_id (df ! i) @ ''_C1''"
    by (simp add: r conversation_rows_nth [OF i] convo_ids_first [OF f] str_nat_1)
next
  assume "assign_conversations df = Inr rows" and c: "consecutive_in_group df i' j"
  then have r: "rows = conversation_rows df" by (simp add: assign_conversations_Inr)
  have ij: "i' < length df" "j < length df" using c by (simp_all add: consecutive_in_group_def)
  show "convo_id (rows ! j) = convo_id (rows ! i') + (if new_convo (rows ! j) then 1 else 0)"
    using convo_ids_next [OF c] by (simp add: r conversation_rows_nth ij)
qed

theorem conversation_counter_starts_at_one_witness:
  "\<not> gap_overflows [clean (chat 0 ''f'' ''m'' 0 ''0''), clean (chat 1 ''f'' ''m'' (hours 5) ''0'')] \<and>
   first_of_group [clean (chat 0 ''f'' ''m'' 0 ''0''), clean (chat 1 ''f'' ''m'' (hours 5) ''0'')] 0 \<and>
   consecutive_in_group [clean (chat 0 ''f'' ''m'' 0 ''0''), clean (chat 1 ''f'' ''m'' (hours 5) ''0'')] 0 1 \<and>
   assign_conversations [clean (chat 0 ''f'' ''m'' 0 ''0''), clean (chat 1 ''f'' ''m'' (hours 5) ''0'')]
     = Inr (conversation_rows [clean (chat 0 ''f'' ''m'' 0 ''0''), clean (chat 1 ''f'' ''m'' (hours 5) ''0'')]) \<and>
   map (\<lambda>r. (convo_id r, conversation_id r))
     (conversation_rows [clean (chat 0 ''f'' ''m'' 0 ''0''), clean (chat 1 ''f'' ''m'' (hours 5) ''0'')])
     = [(1, ''f_m_C1''), (2, ''f_m_C2'')]"
  using conversation_counter_starts_at_one
    [of "[clean (chat 0 ''f'' ''m'' 0 ''0''), clean (chat 1 ''f'' ''m'' (hours 5) ''0'')]"
        "conversation_rows [clean (chat 0 ''f'' ''m'' 0 ''0''), clean (chat 1 ''f'' ''m'' (hours 5) ''0'')]"
        0 0 1]
  by (simp add: first_of_group_def consecutive_in_group_def chat_simps convo_eval)

text \<open>The first conversation of a group is not numbered 0: a log of one row gets
  \<open>''f_m_C1''\<close>.\<close>

theorem first_conversation_is_not_C0:
  "map_sum id (map conversation_id) (assign_conversations [clean (chat 0 ''f'' ''m'' 0 ''0'')])
     = Inr [''f_m_C1''] \<and>
   ''f_m_C1'' \<noteq> fan_model_id (clean (chat 0 ''f'' ''m'' 0 ''0'')) @ ''_C0''"
  by (simp add: chat_simps convo_eval)

text \<open>
  C7 (as the code has it). Where the function returns a frame: for two consecutive rows of
  a fan-model group, the later row starts a new conversation (it is flagged, and its
  counter differs from the earlier row's) if and only if its model differs from the
  earlier row's model or its timestamp is more than four hours later. Hence a stream of
  two events of one model, whose time difference fits 64 bits, has two conversations when
  the gap exceeds four hours and one conversation otherwise: two for five hours, one for
  three hours, one for exactly four hours.
\<close>

theorem new_conversation_iff_switch_or_gap:
  "(assign_conversations df = Inr rows \<longrightarrow>
      (consecutive_in_group df i j \<longrightarrow>
         new_convo (rows ! j) =
           (model_id (df ! j) \<noteq> model_id (df ! i) \<or>
            timestamp (df ! j) - timestamp (df ! i) > four_hours) \<and>
         (convo_id (rows ! j) \<noteq> convo_id (rows ! i)) =
           (model_id (df ! j) \<noteq> model_id (df ! i) \<or>
            timestamp (df ! j) - timestamp (df ! i) > four_hours))) \<and>
   (fan_model_id a = fan_model_id b \<and> model_id a = model_id b \<and>
    - (2 ^ 63) \<le> timestamp b - timestamp a \<and> timestamp b - timestamp a \<le> 2 ^ 63 - 1 \<longrightarrow>
      (\<exists>rows'. assign_conversations [a, b] = Inr rows' \<and>
         card (conversation_id ` set rows') =
           (if timestamp b - timestamp a > four_hours then 2 else 1)))"
proof (intro conjI impI)
  assume "assign_conversations df = Inr rows" and c: "consecutive_in_group df i j"
  then have r: "rows = conversation_rows df" by (simp add: assign_conversations_Inr)
  have ij: "i < length df" "j < length df" using c by (simp_all add: consecutive_in_group_def)
  show "new_convo (rows ! j) =
        (model_id (df ! j) \<noteq> model_id (df ! i) \<or>
         timestamp (df ! j) - timestamp (df ! i) > four_hours)"
    by (simp add: r conversation_rows_nth ij new_convo_next [OF c])
  show "(convo_id (rows ! j) \<noteq> convo_id (rows ! i)) =
        (model_id (df ! j) \<noteq> model_id (df ! i) \<or>
         timestamp (df ! j) - timestamp (df ! i) > four_hours)"
    using convo_ids_next [OF c] new_convo_next [OF c]
    by (simp add: r conversation_rows_nth ij)
next
  assume h: "fan_model_id a = fan_model_id b \<and> model_id a = model_id b \<and>
    - (2 ^ 63) \<le> timestamp b - timestamp a \<and> timestamp b - timestamp a \<le> 2 ^ 63 - 1"
  then have "\<not> gap_overflows [a, b]" by (simp add: two_event_overflow)
  then have ret: "assign_conversations [a, b] = Inr (conversation_rows [a, b])"
    by (rule assign_conversations_returns)
  have m: "map conversation_id (conversation_rows [a, b]) =
     [fan_model_id a @ ''_C1'',
      fan_model_id a @ (if timestamp b - timestamp a > four_hours then ''_C2'' else ''_C1'')]"
    using h by (simp add: two_event_stream)
  have "conversation_id ` set (conversation_rows [a, b])
      = set (map conversation_id (conversation_rows [a, b]))" by simp
  also have "\<dots> = {fan_model_id a @ ''_C1'',
      fan_model_id a @ (if timestamp b - timestamp a > four_hours then ''_C2'' else ''_C1'')}"
    by (simp only: m) simp
  finally have "card (conversation_id ` set (conversation_rows [a, b])) =
        (if timestamp b - timestamp a > four_hours then 2 else 1)"
    by simp
  then show "\<exists>rows'. assign_conversations [a, b] = Inr rows' \<and>
         card (conversation_id ` set rows') =
           (if timestamp b - timestamp a > four_hours then 2 else 1)"
    using ret by blast
qed

theorem new_conversation_iff_switch_or_gap_witness:
  "assign_conversations [clean (chat 0 ''f'' ''m'' 0 ''0''), clean (chat 1 ''f'' ''m'' (hours 5) ''0'')]
     = Inr (conversation_rows [clean (chat 0 ''f'' ''m'' 0 ''0''), clean (chat 1 ''f'' ''m'' (hours 5) ''0'')]) \<and>
   consecutive_in_group [clean (chat 0 ''f'' ''m'' 0 ''0''), clean (chat 1 ''f'' ''m'' (hours 5) ''0'')] 0 1 \<and>
   new_convo (conversation_rows
      [clean (chat 0 ''f'' ''m'' 0 ''0''), clean (chat 1 ''f'' ''m'' (hours 5) ''0'')] ! 1) \<and>
   card (conversation_id ` set (conversation_rows
      [clean (chat 0 ''f'' ''m'' 0 ''0''), clean (chat 1 ''f'' ''m'' (hours 5) ''0'')])) = 2 \<and>
   card (conversation_id ` set (conversation_rows
      [clean (chat 0 ''f'' ''m'' 0 ''0''), clean (chat 1 ''f'' ''m'' (hours 3) ''0'')])) = 1 \<and>
   card (conversation_id ` set (conversation_rows
      [clean (chat 0 ''f'' ''m'' 0 ''0''), clean (chat 1 ''f'' ''m'' (hours 4) ''0'')])) = 1"
  using new_conversation_iff_switch_or_gap
    [of "[clean (chat 0 ''f'' ''m'' 0 ''0''), clean (chat 1 ''f'' ''m'' (hours 5) ''0'')]"
        "conversation_rows [clean (chat 0 ''f'' ''m'' 0 ''0''), clean (chat 1 ''f'' ''m'' (hours 5) ''0'')]"
        0 1 "clean (chat 0 ''f'' ''m'' 0 ''0'')" "clean (chat 1 ''f'' ''m'' (hours 5) ''0'')"]
    new_conversation_iff_switch_or_gap
    [of "[]" "[]" 0 0 "clean (chat 0 ''f'' ''m'' 0 ''0'')" "clean (chat 1 ''f'' ''m'' (hours 3) ''0'')"]
    new_conversation_iff_switch_or_gap
    [of "[]" "[]" 0 0 "clean (chat 0 ''f'' ''m'' 0 ''0'')" "clean (chat 1 ''f'' ''m'' (hours 4) ''0'')"]
  by (simp add: consecutive_in_group_def chat_simps assign_conversations_def gap_overflows_def
      time_diff_overflows_def group_shift_def four_hours_def)

text \<open>Two events of one fan and one model, the second \<open>2 ^ 63\<close> nanoseconds after the
  first: the subtraction overflows and no row is flagged.\<close>

theorem gap_beyond_64_bits_raises:
  "assign_conversations
     [clean (chat 0 ''f'' ''m'' (- 1) ''0''), clean (chat 1 ''f'' ''m'' (2 ^ 63 - 1) ''0'')]
   = Inl OverflowError"
  by (simp add: chat_simps convo_eval)

section \<open>Order of the input rows\<close>

lemma sorted_same_mset_eq:
  fixes xs ys :: "'a::linorder list"
  assumes "sorted xs" "sorted ys" "mset xs = mset ys"
  shows "xs = ys"
proof -
  have "sort ys = xs" using assms(1,3) by (intro properties_for_sort) simp_all
  moreover have "sort ys = ys" using assms(2) by (simp add: sort_key_id_if_sorted)
  ultimately show ?thesis by simp
qed

lemma sort_key_keys_eq:
  fixes f :: "'b \<Rightarrow> 'a::linorder"
  assumes "mset xs = mset ys"
  shows "map f (sort_key f xs) = map f (sort_key f ys)"
proof (rule sorted_same_mset_eq)
  show "sorted (map f (sort_key f xs))" "sorted (map f (sort_key f ys))" by simp_all
  show "mset (map f (sort_key f xs)) = mset (map f (sort_key f ys))"
    using assms by (metis mset_map mset_sort)
qed

lemma sorted_run:
  fixes ks :: "'a::linorder list"
  assumes "sorted ks" "i \<le> l" "l \<le> j" "j < length ks" "ks ! i = ks ! j"
  shows "ks ! l = ks ! i"
proof -
  have "ks ! i \<le> ks ! l"
    using assms(1,2,3,4) by (intro sorted_nth_mono) simp_all
  moreover have "ks ! l \<le> ks ! j"
    using assms(1,3,4) by (intro sorted_nth_mono) simp_all
  ultimately show ?thesis using assms(5) by simp
qed

lemma constant_on_runs:
  fixes ks :: "'a::linorder list"
  assumes "sorted ks" "length vs = length ks"
    and adj: "\<And>i. Suc i < length ks \<Longrightarrow> ks ! i = ks ! Suc i \<Longrightarrow> vs ! Suc i = vs ! i"
  shows "i \<le> j \<Longrightarrow> j < length ks \<Longrightarrow> ks ! i = ks ! j \<Longrightarrow> vs ! j = vs ! i"
proof (induction j)
  case 0
  then show ?case by simp
next
  case (Suc j)
  show ?case
  proof (cases "i = Suc j")
    case True
    then show ?thesis by simp
  next
    case False
    then have ij: "i \<le> j" using Suc.prems by simp
    have "ks ! j = ks ! i"
      using sorted_run [OF assms(1) ij _ Suc.prems(2,3)] by simp
    then have "vs ! j = vs ! i" using Suc.IH ij Suc.prems(2) by simp
    moreover have "ks ! j = ks ! Suc j" using \<open>ks ! j = ks ! i\<close> Suc.prems(3) by simp
    then have "vs ! Suc j = vs ! j" using adj Suc.prems(2) by simp
    ultimately show ?thesis by simp
  qed
qed

lemma function_of_key:
  fixes ks :: "'a::linorder list"
  assumes "sorted ks" "length vs = length ks"
    and adj: "\<And>i. Suc i < length ks \<Longrightarrow> ks ! i = ks ! Suc i \<Longrightarrow> vs ! Suc i = vs ! i"
  shows "\<exists>g. vs = map g ks"
proof -
  define g where "g k = vs ! (LEAST i. ks ! i = k)" for k
  have "vs ! i = g (ks ! i)" if "i < length ks" for i
  proof -
    let ?l = "LEAST i'. ks ! i' = ks ! i"
    have l: "ks ! ?l = ks ! i" by (rule LeastI [of _ i]) simp
    have le: "?l \<le> i" by (rule Least_le) simp
    have "vs ! i = vs ! ?l"
      using constant_on_runs [OF assms(1,2) adj le that l] by simp
    then show ?thesis by (simp add: g_def)
  qed
  then have "vs = map g ks"
    using assms(2) by (intro nth_equalityI) simp_all
  then show ?thesis by blast
qed

lemma convo_ids_tie:
  assumes "ties_share_model es" "Suc i < length es"
    "(fan_model_id (es ! i), timestamp (es ! i)) = (fan_model_id (es ! Suc i), timestamp (es ! Suc i))"
  shows "convo_ids (map fan_model_id es) (map model_id es) (map timestamp es) ! Suc i
       = convo_ids (map fan_model_id es) (map model_id es) (map timestamp es) ! i"
proof -
  have c: "consecutive_in_group es i (Suc i)"
    using assms(2,3) by (simp add: consecutive_in_group_def)
  have "es ! i \<in> set es" "es ! Suc i \<in> set es" using assms(2) by simp_all
  then have "model_id (es ! Suc i) = model_id (es ! i)"
    using assms(1,3) unfolding ties_share_model_def by (metis prod.inject)
  moreover have "timestamp (es ! Suc i) = timestamp (es ! i)" using assms(3) by simp
  ultimately have "\<not> new_convo_flags (map fan_model_id es) (map model_id es) (map timestamp es) ! Suc i"
    by (simp add: new_convo_next [OF c] four_hours_def)
  then show ?thesis using convo_ids_next [OF c] by simp
qed

lemma assignment_columns:
  "map (\<lambda>r. (ev r, convo_id r, conversation_id r)) (conversation_rows df) =
   map (\<lambda>(e, c). (e, c, fan_model_id e @ ''_C'' @ str_nat c))
     (zip df (convo_ids (map fan_model_id df) (map model_id df) (map timestamp df)))"
  by (rule nth_equalityI)
     (simp_all add: length_conversation_rows length_convo_ids conversation_rows_nth)

lemma sorted_events_assignment:
  assumes s: "sorted (map (\<lambda>e. (fan_model_id e, timestamp e)) es)" and t: "ties_share_model es"
  shows "\<exists>g. convo_ids (map fan_model_id es) (map model_id es) (map timestamp es)
            = map g (map (\<lambda>e. (fan_model_id e, timestamp e)) es)"
proof (rule function_of_key [OF s])
  show "length (convo_ids (map fan_model_id es) (map model_id es) (map timestamp es))
      = length (map (\<lambda>e. (fan_model_id e, timestamp e)) es)"
    by (simp add: length_convo_ids)
next
  fix i
  assume "Suc i < length (map (\<lambda>e. (fan_model_id e, timestamp e)) es)"
    and "map (\<lambda>e. (fan_model_id e, timestamp e)) es ! i = map (\<lambda>e. (fan_model_id e, timestamp e)) es ! Suc i"
  then show "convo_ids (map fan_model_id es) (map model_id es) (map timestamp es) ! Suc i
       = convo_ids (map fan_model_id es) (map model_id es) (map timestamp es) ! i"
    using t by (intro convo_ids_tie) simp_all
qed

lemma same_keys_same_columns:
  assumes k: "map (\<lambda>e. (fan_model_id e, timestamp e)) xs = map (\<lambda>e. (fan_model_id e, timestamp e)) ys"
    and se: "set xs = set ys" and t: "ties_share_model xs"
  shows "map fan_model_id xs = map fan_model_id ys \<and> map timestamp xs = map timestamp ys \<and>
         map model_id xs = map model_id ys"
proof -
  have len: "length xs = length ys"
    using arg_cong [OF k, of length] by simp
  have kk: "fan_model_id (xs ! i) = fan_model_id (ys ! i) \<and> timestamp (xs ! i) = timestamp (ys ! i)"
    if "i < length xs" for i
  proof -
    have "map (\<lambda>e. (fan_model_id e, timestamp e)) xs ! i = map (\<lambda>e. (fan_model_id e, timestamp e)) ys ! i"
      by (simp only: k)
    then show ?thesis using that len by simp
  qed
  have mm: "model_id (xs ! i) = model_id (ys ! i)" if "i < length xs" for i
  proof -
    have "xs ! i \<in> set xs" using that by simp
    moreover have "ys ! i \<in> set xs" using that len se by simp
    moreover have "\<forall>a\<in>set xs. \<forall>b\<in>set xs.
        fan_model_id a = fan_model_id b \<and> timestamp a = timestamp b \<longrightarrow> model_id a = model_id b"
      using t by (simp only: ties_share_model_def)
    ultimately show ?thesis using kk [OF that] by blast
  qed
  have "map model_id xs = map model_id ys"
    using len mm by (intro nth_equalityI) simp_all
  moreover have "map fan_model_id xs = map fan_model_id ys"
    using len kk by (intro nth_equalityI) simp_all
  moreover have "map timestamp xs = map timestamp ys"
    using len kk by (intro nth_equalityI) simp_all
  ultimately show ?thesis by simp
qed

lemma zip_map_key:
  "map (\<lambda>(e, c). h e c) (zip xs (map g (map k xs))) = map (\<lambda>e. h e (g (k e))) xs"
  by (induction xs) simp_all

lemma mset_preprocess:
  assumes "mset df' = mset df"
  shows "mset (preprocess s df') = mset (preprocess s df)"
proof -
  have "mset (filter (\<lambda>r. \<not> is_system r) df') = mset (filter (\<lambda>r. \<not> is_system r) df)"
    using assms by (simp add: mset_filter)
  then show ?thesis using assms by (simp add: preprocess_def Let_def)
qed

lemma keys_preprocess:
  assumes "mset df' = mset df"
  shows "map (\<lambda>e. (fan_model_id e, timestamp e)) (preprocess s df')
       = map (\<lambda>e. (fan_model_id e, timestamp e)) (preprocess s df)"
proof -
  have "mset (filter (\<lambda>r. \<not> is_system r) df') = mset (filter (\<lambda>r. \<not> is_system r) df)"
    using assms by (simp add: mset_filter)
  then have "mset (map clean (if s then filter (\<lambda>r. \<not> is_system r) df' else df'))
           = mset (map clean (if s then filter (\<lambda>r. \<not> is_system r) df else df))"
    using assms by simp
  then show ?thesis
    unfolding preprocess_def Let_def by (rule sort_key_keys_eq)
qed

text \<open>
  Where the cleaned rows of one \<open>fan_model_id\<close> and one timestamp name one model, the
  frame built for a permutation of the log pairs every event with the same conversation
  counter and the same \<open>conversation_id\<close>: the rows with their assignments form the same
  multiset.
\<close>

lemma conversation_assignment_order_independent:
  assumes p: "mset df' = mset df" and t: "ties_share_model (preprocess s df)"
  shows "mset (map (\<lambda>r. (ev r, convo_id r, conversation_id r))
                 (conversation_rows (preprocess s df')))
       = mset (map (\<lambda>r. (ev r, convo_id r, conversation_id r))
                 (conversation_rows (preprocess s df)))"
proof -
  define xs where "xs = preprocess s df"
  define ys where "ys = preprocess s df'"
  define ids where "ids es = convo_ids (map fan_model_id es) (map model_id es) (map timestamp es)"
    for es :: "event list"
  define key :: "event \<Rightarrow> string \<times> int" where "key e = (fan_model_id e, timestamp e)" for e
  have ms: "mset ys = mset xs"
    unfolding xs_def ys_def using p by (rule mset_preprocess)
  have keys: "map key xs = map key ys"
    unfolding xs_def ys_def key_def by (rule keys_preprocess [OF p, symmetric])
  have tx: "ties_share_model xs" using t by (simp only: xs_def)
  have "set xs = set ys" using ms by (metis set_mset_mset)
  then have cols: "map fan_model_id xs = map fan_model_id ys \<and> map timestamp xs = map timestamp ys \<and>
         map model_id xs = map model_id ys"
    using keys tx unfolding key_def by (intro same_keys_same_columns)
  then have ids: "ids ys = ids xs" by (simp only: ids_def)
  have "sorted (map (\<lambda>e. (fan_model_id e, timestamp e)) xs)"
    by (simp only: xs_def preprocess_def Let_def sorted_sort_key)
  then obtain g where g: "ids xs = map g (map key xs)"
    using sorted_events_assignment [OF _ tx] unfolding ids_def key_def by blast
  have gy: "ids ys = map g (map key ys)" by (simp only: ids g keys)
  define F where "F e = (e, g (key e), fan_model_id e @ ''_C'' @ str_nat (g (key e)))" for e
  have x: "map (\<lambda>(e, c). (e, c, fan_model_id e @ ''_C'' @ str_nat c)) (zip xs (ids xs)) = map F xs"
    unfolding g F_def by (rule zip_map_key)
  have y: "map (\<lambda>(e, c). (e, c, fan_model_id e @ ''_C'' @ str_nat c)) (zip ys (ids ys)) = map F ys"
    unfolding gy F_def by (rule zip_map_key)
  have "mset (map F ys) = mset (map F xs)" by (simp only: mset_map ms)
  then have "mset (map (\<lambda>(e, c). (e, c, fan_model_id e @ ''_C'' @ str_nat c)) (zip ys (ids ys)))
      = mset (map (\<lambda>(e, c). (e, c, fan_model_id e @ ''_C'' @ str_nat c)) (zip xs (ids xs)))"
    by (simp only: x y)
  then show ?thesis
    unfolding assignment_columns ids_def xs_def ys_def .
qed

lemma conversation_assignment_order_independent_tied:
  "mset [chat 1 ''f'' ''m'' 0 ''0'', chat 2 ''f'' ''m'' (hours 5) ''0'', chat 0 ''f'' ''m'' 0 ''0'']
     = mset [chat 0 ''f'' ''m'' 0 ''0'', chat 1 ''f'' ''m'' 0 ''0'', chat 2 ''f'' ''m'' (hours 5) ''0''] \<and>
   ties_share_model (preprocess False
     [chat 0 ''f'' ''m'' 0 ''0'', chat 1 ''f'' ''m'' 0 ''0'', chat 2 ''f'' ''m'' (hours 5) ''0'']) \<and>
   map (\<lambda>r. (index (ev r), conversation_id r)) (conversation_rows (preprocess False
     [chat 1 ''f'' ''m'' 0 ''0'', chat 2 ''f'' ''m'' (hours 5) ''0'', chat 0 ''f'' ''m'' 0 ''0'']))
     = [(1, ''f_m_C1''), (0, ''f_m_C1''), (2, ''f_m_C2'')] \<and>
   map (\<lambda>r. (index (ev r), conversation_id r)) (conversation_rows (preprocess False
     [chat 0 ''f'' ''m'' 0 ''0'', chat 1 ''f'' ''m'' 0 ''0'', chat 2 ''f'' ''m'' (hours 5) ''0'']))
     = [(0, ''f_m_C1''), (1, ''f_m_C1''), (2, ''f_m_C2'')]"
  by (simp add: ties_share_model_def preprocess_def chat_simps convo_eval less_eq_prod_def)

text \<open>
  C8, at a log the code can receive. Two rows at one timestamp whose fans and models
  differ but whose key texts agree: \<open>''a_b'' @ ''_'' @ ''c''\<close> and \<open>''a'' @ ''_'' @ ''b_c''\<close>.
  The log and its permutation are both sorted stably, so the tied rows keep their input
  order; the row with label 0 is in conversation 1 when it comes first in the log and in
  conversation 2 when it comes second.
\<close>

theorem tied_rows_of_merged_keys_depend_on_order:
  "mset [chat 1 ''a'' ''b_c'' 0 ''0'', chat 0 ''a_b'' ''c'' 0 ''0'']
     = mset [chat 0 ''a_b'' ''c'' 0 ''0'', chat 1 ''a'' ''b_c'' 0 ''0''] \<and>
   map_sum id (map (\<lambda>r. (index (ev r), conversation_id r)))
     (assign_conversations (preprocess False [chat 0 ''a_b'' ''c'' 0 ''0'', chat 1 ''a'' ''b_c'' 0 ''0'']))
     = Inr [(0, ''a_b_c_C1''), (1, ''a_b_c_C2'')] \<and>
   map_sum id (map (\<lambda>r. (index (ev r), conversation_id r)))
     (assign_conversations (preprocess False [chat 1 ''a'' ''b_c'' 0 ''0'', chat 0 ''a_b'' ''c'' 0 ''0'']))
     = Inr [(1, ''a_b_c_C1''), (0, ''a_b_c_C2'')]"
  by (simp add: preprocess_def chat_simps convo_eval less_eq_prod_def)

section \<open>The feature table\<close>

lemma no_purchase_counts_all_messages:
  "\<forall>r\<in>set grp. \<not> purchase (ev r) \<Longrightarrow>
   messages_before_first_purchase (group_features c grp) = int (length grp) \<and>
   messages_preceding_first_purchase grp = int (length grp)"
  by (simp add: group_features_def messages_preceding_first_purchase_def filter_empty_conv
      takeWhile_eq_all_conv [THEN iffD2])

text \<open>
  C9, at a log the code can receive. In \<open>interleaved_log\<close> the conversation
  \<open>''A_M_C1''\<close> has two messages, labelled 0 and 2, and the second is its first
  purchase: one message comes before the first purchase. The feature is the difference of
  the two labels, 2.
\<close>

theorem messages_before_first_purchase_subtracts_labels:
  "map_sum id (map (\<lambda>f. (feat_conversation_id f, message_count f, messages_before_first_purchase f)))
     (conversation_features False interleaved_log)
     = Inr [(''A_M_C1'', 2, 2), (''B_M_C1'', 1, 1)] \<and>
   assign_conversations (preprocess False interleaved_log)
     = Inr (conversation_rows (preprocess False interleaved_log)) \<and>
   messages_preceding_first_purchase
     (filter (\<lambda>r. conversation_id r = ''A_M_C1'')
        (conversation_rows (preprocess False interleaved_log))) = 1"
  by (simp add: interleaved_log_def preprocess_def chat_simps convo_eval less_eq_prod_def
      conversation_features_def compute_features_def group_features_def
      messages_preceding_first_purchase_def)

section \<open>Properties of assign\_stages\<close>

lemma sorted_split_le:
  fixes f :: "'a \<Rightarrow> int"
  assumes "sorted (map f xs)"
  shows "filter (\<lambda>x. f x \<le> a) xs @ filter (\<lambda>x. a < f x) xs = xs"
  using assms
proof (induction xs)
  case Nil
  then show ?case by simp
next
  case (Cons x xs)
  show ?case
  proof (cases "f x \<le> a")
    case True
    then show ?thesis using Cons by simp
  next
    case False
    then have "\<forall>y\<in>set xs. a < f y" using Cons.prems by auto
    then have "filter (\<lambda>x. f x \<le> a) xs = []" "filter (\<lambda>x. a < f x) xs = xs"
      by (auto simp: filter_empty_conv filter_id_conv)
    then show ?thesis using False by simp
  qed
qed

lemma sorted_split_three:
  fixes f :: "'a \<Rightarrow> int"
  assumes "sorted (map f xs)" "a \<le> b"
  shows "filter (\<lambda>x. f x \<le> a) xs @ filter (\<lambda>x. a < f x \<and> f x \<le> b) xs
           @ filter (\<lambda>x. b < f x) xs = xs"
proof -
  let ?B = "filter (\<lambda>x. a < f x) xs"
  have "sorted (map f ?B)" using assms(1) by (simp add: sorted_filter)
  then have "filter (\<lambda>x. f x \<le> b) ?B @ filter (\<lambda>x. b < f x) ?B = ?B"
    by (rule sorted_split_le)
  moreover have "filter (\<lambda>x. f x \<le> b) ?B = filter (\<lambda>x. a < f x \<and> f x \<le> b) xs"
    by (simp add: conj_commute)
  moreover have "filter (\<lambda>x. b < f x) ?B = filter (\<lambda>x. b < f x) xs"
    using assms(2) by (auto intro: filter_cong)
  ultimately have "filter (\<lambda>x. a < f x \<and> f x \<le> b) xs @ filter (\<lambda>x. b < f x) xs = ?B"
    by simp
  then show ?thesis using sorted_split_le [OF assms(1), of a] by simp
qed

lemma hd_le_last_sorted:
  fixes ts :: "int list"
  assumes "sorted ts" "ts \<noteq> []"
  shows "hd ts \<le> last ts"
  using assms by (metis hd_conv_nth last_conv_nth sorted_nth_mono le0 diff_less length_greater_0_conv zero_less_one)

lemma label_filter:
  "(\<And>e. P e \<Longrightarrow> lab e = c) \<Longrightarrow> map (\<lambda>e. (e, c)) (filter P xs) = map (\<lambda>e. (e, lab e)) (filter P xs)"
  by (induction xs) auto

lemma timestamp_sort_filter:
  "timestamp_sort sv g \<Longrightarrow> (filter P (sv g) = []) = (filter P g = [])"
  unfolding timestamp_sort_def filter_empty_conv by (metis set_mset_mset)

lemma stage_group_no_purchase:
  assumes "timestamp_sort sv g" "filter purchase g = []"
  shows "stage_group sv g = map (\<lambda>e. (e, stage_1)) (sv g)"
proof -
  have "filter purchase (sv g) = []"
    using assms by (simp add: timestamp_sort_filter)
  then show ?thesis by (simp add: stage_group_def)
qed

lemma stage_group_purchases:
  assumes ts: "timestamp_sort sv g" and "filter purchase g \<noteq> []"
  shows "stage_group sv g =
     map (\<lambda>e. (e, spec_stage (hd (map timestamp (filter purchase (sv g))))
                     (last (map timestamp (filter purchase (sv g)))) (timestamp e)))
       (sv g)"
proof -
  define grp where "grp = sv g"
  define pt where "pt = map timestamp (filter purchase grp)"
  define a where "a = hd pt"
  define b where "b = last pt"
  define lab :: "event \<Rightarrow> stage" where "lab e = spec_stage a b (timestamp e)" for e
  have s: "sorted (map timestamp grp)" using ts by (simp add: grp_def timestamp_sort_def)
  have ne: "pt \<noteq> []" using assms by (simp add: pt_def grp_def timestamp_sort_filter)
  have "sorted pt" using s by (simp add: pt_def sorted_filter)
  then have ab: "a \<le> b" using ne by (simp add: a_def b_def hd_le_last_sorted)
  let ?A = "filter (\<lambda>e. timestamp e \<le> a) grp"
  let ?B = "filter (\<lambda>e. a < timestamp e \<and> timestamp e \<le> b) grp"
  let ?C = "filter (\<lambda>e. b < timestamp e) grp"
  have B: "a = b \<Longrightarrow> ?B = []" by (auto simp: filter_empty_conv)
  have "stage_group sv g = map (\<lambda>e. (e, stage_1)) ?A
      @ (if a \<noteq> b then map (\<lambda>e. (e, stage_2)) ?B else []) @ map (\<lambda>e. (e, stage_3)) ?C"
    using ne unfolding stage_group_def Let_def grp_def [symmetric] pt_def [symmetric]
      a_def [symmetric] b_def [symmetric]
    by (simp only: if_False) (simp split: if_splits)
  also have "\<dots> = map (\<lambda>e. (e, stage_1)) ?A @ map (\<lambda>e. (e, stage_2)) ?B @ map (\<lambda>e. (e, stage_3)) ?C"
    using B by simp
  also have "map (\<lambda>e. (e, stage_1)) ?A = map (\<lambda>e. (e, lab e)) ?A"
    by (rule label_filter) (simp add: lab_def spec_stage_def)
  also have "map (\<lambda>e. (e, stage_2)) ?B = map (\<lambda>e. (e, lab e)) ?B"
    by (rule label_filter) (simp add: lab_def spec_stage_def)
  also have "map (\<lambda>e. (e, stage_3)) ?C = map (\<lambda>e. (e, lab e)) ?C"
    by (rule label_filter) (use ab in \<open>simp add: lab_def spec_stage_def\<close>)
  also have "map (\<lambda>e. (e, lab e)) ?A @ map (\<lambda>e. (e, lab e)) ?B @ map (\<lambda>e. (e, lab e)) ?C
      = map (\<lambda>e. (e, lab e)) (?A @ ?B @ ?C)" by simp
  also have "?A @ ?B @ ?C = grp" using s ab by (rule sorted_split_three)
  finally show ?thesis by (simp add: lab_def a_def b_def pt_def grp_def)
qed

lemma stage_group_events:
  assumes "timestamp_sort sv g"
  shows "map fst (stage_group sv g) = sv g"
proof (cases "filter purchase g = []")
  case True
  then show ?thesis using assms by (simp add: stage_group_no_purchase comp_def)
next
  case False
  then show ?thesis using assms by (simp add: stage_group_purchases comp_def)
qed

lemma stage_group_keys:
  assumes "timestamp_sort sv g" "\<forall>e\<in>set g. fan_model_id e = k'" "(e, s) \<in> set (stage_group sv g)"
  shows "fan_model_id e = k'"
proof -
  have "e \<in> set (map fst (stage_group sv g))" using assms(3) by force
  then have "e \<in> set (sv g)" using assms(1) by (simp add: stage_group_events)
  then have "e \<in> set g" using assms(1) unfolding timestamp_sort_def by (metis set_mset_mset)
  then show ?thesis using assms(2) by simp
qed

lemma stage_group_Nil: "timestamp_sort sv [] \<Longrightarrow> stage_group sv [] = []"
  by (simp add: stage_group_def timestamp_sort_def)

lemma sorted_hd_Min:
  fixes xs :: "int list"
  assumes "sorted xs" "xs \<noteq> []"
  shows "hd xs = Min (set xs)"
proof (rule Min_eqI [symmetric])
  show "finite (set xs)" by simp
  show "hd xs \<in> set xs" using assms(2) by simp
  fix y assume "y \<in> set xs"
  then show "hd xs \<le> y" using assms by (cases xs) auto
qed

lemma sorted_last_Max:
  fixes xs :: "int list"
  assumes "sorted xs" "xs \<noteq> []"
  shows "last xs = Max (set xs)"
proof (rule Max_eqI [symmetric])
  show "finite (set xs)" by simp
  show "last xs \<in> set xs" using assms(2) by simp
  fix y assume "y \<in> set xs"
  then obtain i where "i < length xs" "xs ! i = y" by (auto simp: in_set_conv_nth)
  then show "y \<le> last xs"
    using assms sorted_nth_mono [of xs i "length xs - 1"] by (simp add: last_conv_nth)
qed

lemma purchase_times_Min_Max:
  assumes ts: "timestamp_sort sv g" and ne: "filter purchase g \<noteq> []"
  shows "hd (map timestamp (filter purchase (sv g))) = Min (timestamp ` set (filter purchase g))"
    and "last (map timestamp (filter purchase (sv g))) = Max (timestamp ` set (filter purchase g))"
proof -
  let ?pt = "map timestamp (filter purchase (sv g))"
  have "sorted (map timestamp (sv g))" using ts by (simp add: timestamp_sort_def)
  then have s: "sorted ?pt" by (simp add: sorted_filter)
  have n: "?pt \<noteq> []" using ts ne by (simp add: timestamp_sort_filter)
  have "set (sv g) = set g" using ts unfolding timestamp_sort_def by (metis set_mset_mset)
  then have e: "set ?pt = timestamp ` set (filter purchase g)" by auto
  show "hd ?pt = Min (timestamp ` set (filter purchase g))"
    using sorted_hd_Min [OF s n] e by simp
  show "last ?pt = Max (timestamp ` set (filter purchase g))"
    using sorted_last_Max [OF s n] e by simp
qed

lemma filter_concat_one_key:
  assumes "distinct ks"
    and own: "\<And>k' x. k' \<in> set ks \<Longrightarrow> x \<in> set (F k') \<Longrightarrow> key x = k'"
  shows "filter (\<lambda>x. key x = k) (concat (map F ks)) = (if k \<in> set ks then F k else [])"
  using assms
proof (induction ks)
  case Nil
  then show ?case by simp
next
  case (Cons a ks)
  have IH: "filter (\<lambda>x. key x = k) (concat (map F ks)) = (if k \<in> set ks then F k else [])"
    using Cons by simp
  show ?case
  proof (cases "a = k")
    case True
    then have "k \<notin> set ks" using Cons.prems(1) by simp
    moreover have "filter (\<lambda>x. key x = k) (F a) = F a"
      using Cons.prems(2) [of a] True by (simp add: filter_id_conv)
    ultimately show ?thesis using IH True by simp
  next
    case False
    have "filter (\<lambda>x. key x = k) (F a) = []"
      using Cons.prems(2) [of a] False by (auto simp: filter_empty_conv)
    then show ?thesis using IH False by simp
  qed
qed

lemma timestamp_sort_sort_key: "timestamp_sort (sort_key timestamp) g"
  by (simp add: timestamp_sort_def)

lemma timestamp_sort_reversing: "timestamp_sort reversing_sort g"
  by (simp add: timestamp_sort_def reversing_sort_def)

lemma staged_rows_of_key:
  assumes "\<forall>k. timestamp_sort sv (filter (\<lambda>e. fan_model_id e = k) df)"
  shows "filter (\<lambda>(e, s). fan_model_id e = k) (concat (all_stage_rows sv df))
     = stage_group sv (filter (\<lambda>e. fan_model_id e = k) df)"
proof -
  let ?ks = "sort (remdups (map fan_model_id df))"
  let ?F = "\<lambda>k. stage_group sv (filter (\<lambda>e. fan_model_id e = k) df)"
  have d: "distinct ?ks" by simp
  have ts: "timestamp_sort sv (filter (\<lambda>e. fan_model_id e = k') df)" for k'
    using assms by blast
  have own: "fan_model_id (fst x) = k'" if "x \<in> set (?F k')" for k' x
  proof -
    have a: "(fst x, snd x) \<in> set (stage_group sv (filter (\<lambda>e. fan_model_id e = k') df))"
      using that by simp
    have b: "\<forall>e\<in>set (filter (\<lambda>e. fan_model_id e = k') df). fan_model_id e = k'"
      by simp
    show ?thesis by (rule stage_group_keys [OF ts [of k'] b a])
  qed
  have "filter (\<lambda>x. fan_model_id (fst x) = k) (concat (map ?F ?ks))
      = (if k \<in> set ?ks then ?F k else [])"
    using d own by (rule filter_concat_one_key)
  moreover have "?F k = []" if "k \<notin> set ?ks"
  proof -
    have "filter (\<lambda>e. fan_model_id e = k) df = []" using that by (auto simp: filter_empty_conv)
    moreover have "timestamp_sort sv (filter (\<lambda>e. fan_model_id e = k) df)" by (rule ts)
    ultimately show ?thesis by (simp add: stage_group_Nil)
  qed
  ultimately have "filter (\<lambda>x. fan_model_id (fst x) = k) (concat (map ?F ?ks)) = ?F k"
    by auto
  then show ?thesis by (simp add: all_stage_rows_def case_prod_unfold)
qed

text \<open>
  C1 (as the code has it). The stage of each event is determined only by the purchase
  events of the fan-model group (\<open>fan_model_id\<close>) the event belongs to: for a non-empty
  log, whatever order the sort gives to rows of equal timestamps, the staged rows of a key
  are exactly the stages computed from that key's rows alone. The script groups by
  \<open>fan_model_id\<close> and has no conversation column, so all conversations of a fan-model pair
  are staged together.
\<close>

theorem stages_assigned_per_fan_model_group:
  assumes "df \<noteq> []" and "\<forall>k. timestamp_sort sv (filter (\<lambda>e. fan_model_id e = k) df)"
  shows "assign_stages sv df = Inr (concat (all_stage_rows sv df)) \<and>
         filter (\<lambda>(e, s). fan_model_id e = k) (concat (all_stage_rows sv df))
           = stage_group sv (filter (\<lambda>e. fan_model_id e = k) df)"
proof -
  have "map fan_model_id df \<noteq> []" using assms(1) by simp
  then have "set (sort (remdups (map fan_model_id df))) \<noteq> {}" by simp
  then have "all_stage_rows sv df \<noteq> []" unfolding all_stage_rows_def by (metis map_is_Nil_conv set_empty)
  then show ?thesis using assms(2) by (simp add: assign_stages_def staged_rows_of_key)
qed

text \<open>
  C2. For every group processed by the stage assigner, ordered by timestamp by whatever
  sort, with rows of equal timestamps in any order: with no purchase event every event is
  \<open>stage_1\<close>; otherwise, with the earliest and the latest purchase timestamp, which are
  the timestamps of the first and the last purchase event of the ordered group, an event
  is \<open>stage_1\<close> up to the first, \<open>stage_2\<close> after the first and up to the last, and
  \<open>stage_3\<close> after the last. The output holds every event of the group once, in the
  order of the sort. With exactly one purchase event there is no \<open>stage_2\<close> row and the
  purchase event is \<open>stage_1\<close>.
\<close>

theorem stage_rule_of_ordered_group:
  assumes "timestamp_sort sv g"
  shows
  "(filter purchase g = [] \<longrightarrow>
      stage_group sv g = map (\<lambda>e. (e, stage_1)) (sv g) \<and>
      mset (stage_group sv g) = image_mset (\<lambda>e. (e, stage_1)) (mset g)) \<and>
   (filter purchase g \<noteq> [] \<longrightarrow>
      timestamp (hd (filter purchase (sv g))) = Min (timestamp ` set (filter purchase g)) \<and>
      timestamp (last (filter purchase (sv g))) = Max (timestamp ` set (filter purchase g)) \<and>
      stage_group sv g =
        map (\<lambda>e. (e, spec_stage (Min (timestamp ` set (filter purchase g)))
                        (Max (timestamp ` set (filter purchase g))) (timestamp e)))
          (sv g) \<and>
      mset (stage_group sv g) =
        image_mset (\<lambda>e. (e, spec_stage (Min (timestamp ` set (filter purchase g)))
                               (Max (timestamp ` set (filter purchase g))) (timestamp e)))
          (mset g)) \<and>
   (length (filter purchase g) = 1 \<longrightarrow>
      stage_2 \<notin> snd ` set (stage_group sv g) \<and>
      (\<forall>e\<in>set g. purchase e \<longrightarrow> (e, stage_1) \<in> set (stage_group sv g)))"
proof (intro conjI impI)
  have ms: "mset (sv g) = mset g" using assms by (simp add: timestamp_sort_def)
  {
    assume np: "filter purchase g = []"
    show l: "stage_group sv g = map (\<lambda>e. (e, stage_1)) (sv g)"
      using assms np by (rule stage_group_no_purchase)
    show "mset (stage_group sv g) = image_mset (\<lambda>e. (e, stage_1)) (mset g)"
      by (simp only: l mset_map ms)
  }
  {
    assume ne: "filter purchase g \<noteq> []"
    then have n': "filter purchase (sv g) \<noteq> []" using assms by (simp add: timestamp_sort_filter)
    note mm = purchase_times_Min_Max [OF assms ne]
    show h: "timestamp (hd (filter purchase (sv g))) = Min (timestamp ` set (filter purchase g))"
      using mm(1) n' by (simp add: hd_map)
    show t: "timestamp (last (filter purchase (sv g))) = Max (timestamp ` set (filter purchase g))"
      using mm(2) n' by (simp add: last_map)
    show l: "stage_group sv g =
        map (\<lambda>e. (e, spec_stage (Min (timestamp ` set (filter purchase g)))
                        (Max (timestamp ` set (filter purchase g))) (timestamp e)))
          (sv g)"
      using stage_group_purchases [OF assms ne] by (simp only: mm)
    show "mset (stage_group sv g) =
        image_mset (\<lambda>e. (e, spec_stage (Min (timestamp ` set (filter purchase g)))
                               (Max (timestamp ` set (filter purchase g))) (timestamp e)))
          (mset g)"
      by (simp only: l mset_map ms)
  }
  {
    assume one: "length (filter purchase g) = 1"
    let ?ps = "filter purchase (sv g)"
    have "mset ?ps = mset (filter purchase g)" using ms by (simp add: mset_filter)
    then have "length ?ps = 1" using one by (metis size_mset)
    then obtain p where p: "?ps = [p]" by (auto simp: length_Suc_conv)
    have ne: "filter purchase g \<noteq> []" using one by auto
    have eq: "stage_group sv g = map (\<lambda>e. (e, spec_stage (timestamp p) (timestamp p) (timestamp e))) (sv g)"
      using stage_group_purchases [OF assms ne] by (simp add: p)
    have se: "set (sv g) = set g" using ms by (metis set_mset_mset)
    show "stage_2 \<notin> snd ` set (stage_group sv g)"
      by (auto simp: eq spec_stage_def split: if_splits)
    show "\<forall>e\<in>set g. purchase e \<longrightarrow> (e, stage_1) \<in> set (stage_group sv g)"
    proof (intro ballI impI)
      fix e assume e: "e \<in> set g" "purchase e"
      then have "e \<in> set ?ps" using se by simp
      then have "e = p" by (simp add: p)
      then show "(e, stage_1) \<in> set (stage_group sv g)"
        using e(1) se by (auto simp: eq spec_stage_def image_iff)
    qed
  }
qed

lemmas stage_eval = stage_group_def all_stage_rows_def assign_stages_def

theorem stage_rule_of_ordered_group_witness:
  "timestamp_sort (sort_key timestamp) no_purchase_group \<and>
   filter purchase no_purchase_group = [] \<and>
   map snd (stage_group (sort_key timestamp) no_purchase_group) = [stage_1, stage_1] \<and>
   timestamp_sort (sort_key timestamp) two_purchase_group \<and>
   filter purchase two_purchase_group \<noteq> [] \<and>
   map (\<lambda>(e, s). (timestamp e, s)) (stage_group (sort_key timestamp) two_purchase_group)
     = [(- 1, stage_1), (0, stage_1), (5, stage_2), (10, stage_2), (15, stage_3)] \<and>
   timestamp_sort (sort_key timestamp) one_purchase_group \<and>
   length (filter purchase one_purchase_group) = 1 \<and>
   map (\<lambda>(e, s). (timestamp e, s)) (stage_group (sort_key timestamp) one_purchase_group)
     = [(0, stage_1), (3, stage_1), (7, stage_3)] \<and>
   timestamp_sort reversing_sort tied_group \<and>
   map (\<lambda>(e, s). (index e, s)) (stage_group (sort_key timestamp) tied_group)
     = [(0, stage_1), (1, stage_1), (2, stage_3)] \<and>
   map (\<lambda>(e, s). (index e, s)) (stage_group reversing_sort tied_group)
     = [(1, stage_1), (0, stage_1), (2, stage_3)]"
  using stage_rule_of_ordered_group [OF timestamp_sort_sort_key, of no_purchase_group]
    stage_rule_of_ordered_group [OF timestamp_sort_sort_key, of two_purchase_group]
    stage_rule_of_ordered_group [OF timestamp_sort_sort_key, of one_purchase_group]
    stage_rule_of_ordered_group [OF timestamp_sort_reversing, of tied_group]
    timestamp_sort_sort_key [of no_purchase_group] timestamp_sort_sort_key [of two_purchase_group]
    timestamp_sort_sort_key [of one_purchase_group] timestamp_sort_reversing [of tied_group]
  by (simp add: no_purchase_group_def two_purchase_group_def one_purchase_group_def tied_group_def
      reversing_sort_def chat_simps spec_stage_def stage_group_def)

theorem stages_assigned_per_fan_model_group_witness:
  "purchase_then_silence \<noteq> [] \<and>
   (\<forall>k. timestamp_sort (sort_key timestamp) (filter (\<lambda>e. fan_model_id e = k) purchase_then_silence)) \<and>
   assign_stages (sort_key timestamp) purchase_then_silence
     = Inr (concat (all_stage_rows (sort_key timestamp) purchase_then_silence)) \<and>
   map snd (filter (\<lambda>(e, s). fan_model_id e = ''f_m'')
      (concat (all_stage_rows (sort_key timestamp) purchase_then_silence)))
     = [stage_1, stage_3]"
proof -
  have n: "purchase_then_silence \<noteq> []" by (simp add: purchase_then_silence_def)
  have t: "\<forall>k. timestamp_sort (sort_key timestamp) (filter (\<lambda>e. fan_model_id e = k) purchase_then_silence)"
    by (simp add: timestamp_sort_sort_key)
  show ?thesis
    using n t stages_assigned_per_fan_model_group [OF n t, of "''f_m''"]
    by (simp add: purchase_then_silence_def chat_simps stage_eval)
qed

text \<open>Two logs of one fan-model pair with the same second conversation: the message of
  that conversation is \<open>stage_3\<close> when the first conversation holds a purchase and
  \<open>stage_1\<close> when it does not. The two timestamps differ, so every sort by timestamp
  returns the rows in this order.\<close>

theorem stage_depends_on_other_conversation:
  "map_sum id (map conversation_id) (assign_conversations purchase_then_silence)
     = Inr [''f_m_C1'', ''f_m_C2''] \<and>
   map_sum id (map conversation_id) (assign_conversations silence_only)
     = Inr [''f_m_C1'', ''f_m_C2''] \<and>
   map_sum id (filter (\<lambda>r. conversation_id r = ''f_m_C2'')) (assign_conversations purchase_then_silence)
     = map_sum id (filter (\<lambda>r. conversation_id r = ''f_m_C2'')) (assign_conversations silence_only) \<and>
   map_sum id (map (\<lambda>(e, s). (index e, s))) (assign_stages (sort_key timestamp) purchase_then_silence)
     = Inr [(0, stage_1), (1, stage_3)] \<and>
   map_sum id (map (\<lambda>(e, s). (index e, s))) (assign_stages (sort_key timestamp) silence_only)
     = Inr [(0, stage_1), (1, stage_1)]"
  by (simp add: purchase_then_silence_def silence_only_def chat_simps convo_eval stage_eval)

section \<open>Evaluating the cache key\<close>

text \<open>The digests of six texts, block by block.\<close>

lemma replicate_numeral_unfold: "replicate (numeral k) x = x # replicate (pred_numeral k) x"
  by (simp add: numeral_eq_Suc)

lemma md5_pad_one_space:
  "md5_pad (map of_char ''a b'') =
     [97, 32, 98, 128, 0, 0, 0, 0, 0, 0, 0, 0, 0, 0, 0, 0, 0, 0, 0, 0, 0, 0, 0, 0, 0, 0, 0, 0, 0, 0, 0, 0, 0, 0, 0, 0, 0, 0, 0, 0, 0, 0, 0, 0, 0, 0, 0, 0, 0, 0, 0, 0, 0, 0, 0, 0, 24, 0, 0, 0, 0, 0, 0, 0]"
  by (simp add: md5_pad_def le_bytes_def upt_rec replicate_numeral_unfold)

lemma md5_words_one_space:
  "map le_words (chunks
     [97, 32, 98, 128, 0, 0, 0, 0, 0, 0, 0, 0, 0, 0, 0, 0, 0, 0, 0, 0, 0, 0, 0, 0, 0, 0, 0, 0, 0, 0, 0, 0, 0, 0, 0, 0, 0, 0, 0, 0, 0, 0, 0, 0, 0, 0, 0, 0, 0, 0, 0, 0, 0, 0, 0, 0, 24, 0, 0, 0, 0, 0, 0, 0]) =
     [[2153914465, 0, 0, 0, 0, 0, 0, 0, 0, 0, 0, 0, 0, 0, 24, 0]]"
  by (simp add: chunks.simps)

lemma md5_block_one_space_0:
  "md5_block (1732584193, 4023233417, 2562383102, 271733878)
     [2153914465, 0, 0, 0, 0, 0, 0, 0, 0, 0, 0, 0, 0, 0, 24, 0] =
     (1305331980, 928083154, 3634394550, 2962934553)"
  by (simp add: md5_block_def upt_rec md5_K_def md5_s_def md5_F_def md5_g_def leftrotate_def)

lemma md5_hex_one_space:
  "hexdigest (state_bytes (1305331980, 928083154, 3634394550, 2962934553)) = ''0cc9cd4dd26c5137b675a0d819cb9ab0''"
  by (simp add: hexdigest_def hex_digit_def le_bytes_def upt_rec)

lemma get_hash_one_space:
  "get_hash ''a b'' = ''0cc9cd4dd26c5137b675a0d819cb9ab0''"
  by (simp only: get_hash_def md5_digest_def md5_pad_one_space md5_words_one_space foldl.simps md5_block_one_space_0 md5_hex_one_space)

lemma md5_pad_two_spaces:
  "md5_pad (map of_char ''a  b'') =
     [97, 32, 32, 98, 128, 0, 0, 0, 0, 0, 0, 0, 0, 0, 0, 0, 0, 0, 0, 0, 0, 0, 0, 0, 0, 0, 0, 0, 0, 0, 0, 0, 0, 0, 0, 0, 0, 0, 0, 0, 0, 0, 0, 0, 0, 0, 0, 0, 0, 0, 0, 0, 0, 0, 0, 0, 32, 0, 0, 0, 0, 0, 0, 0]"
  by (simp add: md5_pad_def le_bytes_def upt_rec replicate_numeral_unfold)

lemma md5_words_two_spaces:
  "map le_words (chunks
     [97, 32, 32, 98, 128, 0, 0, 0, 0, 0, 0, 0, 0, 0, 0, 0, 0, 0, 0, 0, 0, 0, 0, 0, 0, 0, 0, 0, 0, 0, 0, 0, 0, 0, 0, 0, 0, 0, 0, 0, 0, 0, 0, 0, 0, 0, 0, 0, 0, 0, 0, 0, 0, 0, 0, 0, 32, 0, 0, 0, 0, 0, 0, 0]) =
     [[1646272609, 128, 0, 0, 0, 0, 0, 0, 0, 0, 0, 0, 0, 0, 32, 0]]"
  by (simp add: chunks.simps)

lemma md5_block_two_spaces_0:
  "md5_block (1732584193, 4023233417, 2562383102, 271733878)
     [1646272609, 128, 0, 0, 0, 0, 0, 0, 0, 0, 0, 0, 0, 0, 32, 0] =
     (3814182837, 556449065, 835540890, 1764568169)"
  by (simp add: md5_block_def upt_rec md5_K_def md5_s_def md5_F_def md5_g_def leftrotate_def)

lemma md5_hex_two_spaces:
  "hexdigest (state_bytes (3814182837, 556449065, 835540890, 1764568169)) = ''b5cf57e329bd2a219a57cd31692c2d69''"
  by (simp add: hexdigest_def hex_digit_def le_bytes_def upt_rec)

lemma get_hash_two_spaces:
  "get_hash ''a  b'' = ''b5cf57e329bd2a219a57cd31692c2d69''"
  by (simp only: get_hash_def md5_digest_def md5_pad_two_spaces md5_words_two_spaces foldl.simps md5_block_two_spaces_0 md5_hex_two_spaces)

lemma md5_pad_collision_A:
  "md5_pad (map of_char ''TEXTCOLLBYfGiJUETHQ4hAcKSMd5zYpgqf1YRDhkmxHkhPWptrkoyz28wnI9V0aHeAuaKnak'') =
     [84, 69, 88, 84, 67, 79, 76, 76, 66, 89, 102, 71, 105, 74, 85, 69, 84, 72, 81, 52, 104, 65, 99, 75, 83, 77, 100, 53, 122, 89, 112, 103, 113, 102, 49, 89, 82, 68, 104, 107, 109, 120, 72, 107, 104, 80, 87, 112, 116, 114, 107, 111, 121, 122, 50, 56, 119, 110, 73, 57, 86, 48, 97, 72, 101, 65, 117, 97, 75, 110, 97, 107, 128, 0, 0, 0, 0, 0, 0, 0, 0, 0, 0, 0, 0, 0, 0, 0, 0, 0, 0, 0, 0, 0, 0, 0, 0, 0, 0, 0, 0, 0, 0, 0, 0, 0, 0, 0, 0, 0, 0, 0, 0, 0, 0, 0, 0, 0, 0, 0, 64, 2, 0, 0, 0, 0, 0, 0]"
  by (simp add: md5_pad_def le_bytes_def upt_rec replicate_numeral_unfold)

lemma md5_words_collision_A:
  "map le_words (chunks
     [84, 69, 88, 84, 67, 79, 76, 76, 66, 89, 102, 71, 105, 74, 85, 69, 84, 72, 81, 52, 104, 65, 99, 75, 83, 77, 100, 53, 122, 89, 112, 103, 113, 102, 49, 89, 82, 68, 104, 107, 109, 120, 72, 107, 104, 80, 87, 112, 116, 114, 107, 111, 121, 122, 50, 56, 119, 110, 73, 57, 86, 48, 97, 72, 101, 65, 117, 97, 75, 110, 97, 107, 128, 0, 0, 0, 0, 0, 0, 0, 0, 0, 0, 0, 0, 0, 0, 0, 0, 0, 0, 0, 0, 0, 0, 0, 0, 0, 0, 0, 0, 0, 0, 0, 0, 0, 0, 0, 0, 0, 0, 0, 0, 0, 0, 0, 0, 0, 0, 0, 64, 2, 0, 0, 0, 0, 0, 0]) =
     [[1415071060, 1280069443, 1197889858, 1163217513, 877742164, 1264796008, 895765843, 1735416186, 1496409713, 1801995346, 1799911533, 1884770408, 1869312628, 942832249, 961113719, 1214328918],
      [1635074405, 1801547339, 128, 0, 0, 0, 0, 0, 0, 0, 0, 0, 0, 0, 576, 0]]"
  by (simp add: chunks.simps)

lemma md5_block_collision_A_0:
  "md5_block (1732584193, 4023233417, 2562383102, 271733878)
     [1415071060, 1280069443, 1197889858, 1163217513, 877742164, 1264796008, 895765843, 1735416186, 1496409713, 1801995346, 1799911533, 1884770408, 1869312628, 942832249, 961113719, 1214328918] =
     (3794714596, 2653601834, 2607495017, 3445199489)"
  by (simp add: md5_block_def upt_rec md5_K_def md5_s_def md5_F_def md5_g_def leftrotate_def)

lemma md5_block_collision_A_1:
  "md5_block (3794714596, 2653601834, 2607495017, 3445199489)
     [1635074405, 1801547339, 128, 0, 0, 0, 0, 0, 0, 0, 0, 0, 0, 0, 576, 0] =
     (2252975610, 4237857902, 687151383, 1761770142)"
  by (simp add: md5_block_def upt_rec md5_K_def md5_s_def md5_F_def md5_g_def leftrotate_def)

lemma md5_hex_collision_A:
  "hexdigest (state_bytes (2252975610, 4237857902, 687151383, 1761770142)) = ''faad49866e9498fc1719f5289e7a0269''"
  by (simp add: hexdigest_def hex_digit_def le_bytes_def upt_rec)

lemma get_hash_collision_A:
  "get_hash ''TEXTCOLLBYfGiJUETHQ4hAcKSMd5zYpgqf1YRDhkmxHkhPWptrkoyz28wnI9V0aHeAuaKnak'' = ''faad49866e9498fc1719f5289e7a0269''"
  by (simp only: get_hash_def md5_digest_def md5_pad_collision_A md5_words_collision_A foldl.simps md5_block_collision_A_0 md5_block_collision_A_1 md5_hex_collision_A)

lemma md5_pad_collision_B:
  "md5_pad (map of_char ''TEXTCOLLBYfGiJUETHQ4hEcKSMd5zYpgqf1YRDhkmxHkhPWptrkoyz28wnI9V0aHeAuaKnak'') =
     [84, 69, 88, 84, 67, 79, 76, 76, 66, 89, 102, 71, 105, 74, 85, 69, 84, 72, 81, 52, 104, 69, 99, 75, 83, 77, 100, 53, 122, 89, 112, 103, 113, 102, 49, 89, 82, 68, 104, 107, 109, 120, 72, 107, 104, 80, 87, 112, 116, 114, 107, 111, 121, 122, 50, 56, 119, 110, 73, 57, 86, 48, 97, 72, 101, 65, 117, 97, 75, 110, 97, 107, 128, 0, 0, 0, 0, 0, 0, 0, 0, 0, 0, 0, 0, 0, 0, 0, 0, 0, 0, 0, 0, 0, 0, 0, 0, 0, 0, 0, 0, 0, 0, 0, 0, 0, 0, 0, 0, 0, 0, 0, 0, 0, 0, 0, 0, 0, 0, 0, 64, 2, 0, 0, 0, 0, 0, 0]"
  by (simp add: md5_pad_def le_bytes_def upt_rec replicate_numeral_unfold)

lemma md5_words_collision_B:
  "map le_words (chunks
     [84, 69, 88, 84, 67, 79, 76, 76, 66, 89, 102, 71, 105, 74, 85, 69, 84, 72, 81, 52, 104, 69, 99, 75, 83, 77, 100, 53, 122, 89, 112, 103, 113, 102, 49, 89, 82, 68, 104, 107, 109, 120, 72, 107, 104, 80, 87, 112, 116, 114, 107, 111, 121, 122, 50, 56, 119, 110, 73, 57, 86, 48, 97, 72, 101, 65, 117, 97, 75, 110, 97, 107, 128, 0, 0, 0, 0, 0, 0, 0, 0, 0, 0, 0, 0, 0, 0, 0, 0, 0, 0, 0, 0, 0, 0, 0, 0, 0, 0, 0, 0, 0, 0, 0, 0, 0, 0, 0, 0, 0, 0, 0, 0, 0, 0, 0, 0, 0, 0, 0, 64, 2, 0, 0, 0, 0, 0, 0]) =
     [[1415071060, 1280069443, 1197889858, 1163217513, 877742164, 1264797032, 895765843, 1735416186, 1496409713, 1801995346, 1799911533, 1884770408, 1869312628, 942832249, 961113719, 1214328918],
      [1635074405, 1801547339, 128, 0, 0, 0, 0, 0, 0, 0, 0, 0, 0, 0, 576, 0]]"
  by (simp add: chunks.simps)

lemma md5_block_collision_B_0:
  "md5_block (1732584193, 4023233417, 2562383102, 271733878)
     [1415071060, 1280069443, 1197889858, 1163217513, 877742164, 1264797032, 895765843, 1735416186, 1496409713, 1801995346, 1799911533, 1884770408, 1869312628, 942832249, 961113719, 1214328918] =
     (1647230948, 506118186, 460011369, 1297715841)"
  by (simp add: md5_block_def upt_rec md5_K_def md5_s_def md5_F_def md5_g_def leftrotate_def)

lemma md5_block_collision_B_1:
  "md5_block (1647230948, 506118186, 460011369, 1297715841)
     [1635074405, 1801547339, 128, 0, 0, 0, 0, 0, 0, 0, 0, 0, 0, 0, 576, 0] =
     (2252975610, 4237857902, 687151383, 1761770142)"
  by (simp add: md5_block_def upt_rec md5_K_def md5_s_def md5_F_def md5_g_def leftrotate_def)

lemma md5_hex_collision_B:
  "hexdigest (state_bytes (2252975610, 4237857902, 687151383, 1761770142)) = ''faad49866e9498fc1719f5289e7a0269''"
  by (simp add: hexdigest_def hex_digit_def le_bytes_def upt_rec)

lemma get_hash_collision_B:
  "get_hash ''TEXTCOLLBYfGiJUETHQ4hEcKSMd5zYpgqf1YRDhkmxHkhPWptrkoyz28wnI9V0aHeAuaKnak'' = ''faad49866e9498fc1719f5289e7a0269''"
  by (simp only: get_hash_def md5_digest_def md5_pad_collision_B md5_words_collision_B foldl.simps md5_block_collision_B_0 md5_block_collision_B_1 md5_hex_collision_B)

lemma md5_pad_trailing_space:
  "md5_pad (map of_char ''a b '') =
     [97, 32, 98, 32, 128, 0, 0, 0, 0, 0, 0, 0, 0, 0, 0, 0, 0, 0, 0, 0, 0, 0, 0, 0, 0, 0, 0, 0, 0, 0, 0, 0, 0, 0, 0, 0, 0, 0, 0, 0, 0, 0, 0, 0, 0, 0, 0, 0, 0, 0, 0, 0, 0, 0, 0, 0, 32, 0, 0, 0, 0, 0, 0, 0]"
  by (simp add: md5_pad_def le_bytes_def upt_rec replicate_numeral_unfold)

lemma md5_words_trailing_space:
  "map le_words (chunks
     [97, 32, 98, 32, 128, 0, 0, 0, 0, 0, 0, 0, 0, 0, 0, 0, 0, 0, 0, 0, 0, 0, 0, 0, 0, 0, 0, 0, 0, 0, 0, 0, 0, 0, 0, 0, 0, 0, 0, 0, 0, 0, 0, 0, 0, 0, 0, 0, 0, 0, 0, 0, 0, 0, 0, 0, 32, 0, 0, 0, 0, 0, 0, 0]) =
     [[543301729, 128, 0, 0, 0, 0, 0, 0, 0, 0, 0, 0, 0, 0, 32, 0]]"
  by (simp add: chunks.simps)

lemma md5_block_trailing_space_0:
  "md5_block (1732584193, 4023233417, 2562383102, 271733878)
     [543301729, 128, 0, 0, 0, 0, 0, 0, 0, 0, 0, 0, 0, 0, 32, 0] =
     (335156168, 3885664894, 4278019067, 1764247483)"
  by (simp add: md5_block_def upt_rec md5_K_def md5_s_def md5_F_def md5_g_def leftrotate_def)

lemma md5_hex_trailing_space:
  "hexdigest (state_bytes (335156168, 3885664894, 4278019067, 1764247483)) = ''c813fa137e8a9ae7fb63fdfebb472869''"
  by (simp add: hexdigest_def hex_digit_def le_bytes_def upt_rec)

lemma get_hash_trailing_space:
  "get_hash ''a b '' = ''c813fa137e8a9ae7fb63fdfebb472869''"
  by (simp only: get_hash_def md5_digest_def md5_pad_trailing_space md5_words_trailing_space foldl.simps md5_block_trailing_space_0 md5_hex_trailing_space)

lemma md5_pad_upper_case:
  "md5_pad (map of_char ''A b'') =
     [65, 32, 98, 128, 0, 0, 0, 0, 0, 0, 0, 0, 0, 0, 0, 0, 0, 0, 0, 0, 0, 0, 0, 0, 0, 0, 0, 0, 0, 0, 0, 0, 0, 0, 0, 0, 0, 0, 0, 0, 0, 0, 0, 0, 0, 0, 0, 0, 0, 0, 0, 0, 0, 0, 0, 0, 24, 0, 0, 0, 0, 0, 0, 0]"
  by (simp add: md5_pad_def le_bytes_def upt_rec replicate_numeral_unfold)

lemma md5_words_upper_case:
  "map le_words (chunks
     [65, 32, 98, 128, 0, 0, 0, 0, 0, 0, 0, 0, 0, 0, 0, 0, 0, 0, 0, 0, 0, 0, 0, 0, 0, 0, 0, 0, 0, 0, 0, 0, 0, 0, 0, 0, 0, 0, 0, 0, 0, 0, 0, 0, 0, 0, 0, 0, 0, 0, 0, 0, 0, 0, 0, 0, 24, 0, 0, 0, 0, 0, 0, 0]) =
     [[2153914433, 0, 0, 0, 0, 0, 0, 0, 0, 0, 0, 0, 0, 0, 24, 0]]"
  by (simp add: chunks.simps)

lemma md5_block_upper_case_0:
  "md5_block (1732584193, 4023233417, 2562383102, 271733878)
     [2153914433, 0, 0, 0, 0, 0, 0, 0, 0, 0, 0, 0, 0, 0, 24, 0] =
     (705001916, 3407156543, 164819869, 3760128813)"
  by (simp add: md5_block_def upt_rec md5_K_def md5_s_def md5_F_def md5_g_def leftrotate_def)

lemma md5_hex_upper_case:
  "hexdigest (state_bytes (705001916, 3407156543, 164819869, 3760128813)) = ''bc79052a3f1515cb9df3d2092d031fe0''"
  by (simp add: hexdigest_def hex_digit_def le_bytes_def upt_rec)

lemma get_hash_upper_case:
  "get_hash ''A b'' = ''bc79052a3f1515cb9df3d2092d031fe0''"
  by (simp only: get_hash_def md5_digest_def md5_pad_upper_case md5_words_upper_case foldl.simps md5_block_upper_case_0 md5_hex_upper_case)

section \<open>Properties of the profiler and its cache\<close>

lemma check_cache_eq:
  "check_cache c batch = (served c batch, map fst (uncached c batch), map snd (uncached c batch))"
  by (induction batch)
     (auto simp: served_def uncached_def is_hit_def split: option.splits)


lemma normalize_dict_Nil: "normalize_dict [] = []"
  by (simp add: normalize_dict_def)

lemma tag_Nil: "tag fan [] = placeholder fan"
  by (simp add: tag_def placeholder_def)



lemma store_profiles_prefix:
  "\<exists>more. snd (snd (store_profiles zs c final)) = final @ more"
proof (induction zs arbitrary: c final)
  case Nil
  then show ?case by simp
next
  case (Cons z zs)
  obtain prof fan t where z: "z = (prof, fan, t)" by (cases z) auto
  show ?case
  proof (cases "normalize_keys prof")
    case (Inl e)
    then show ?thesis using z by simp
  next
    case (Inr d)
    obtain more where "snd (snd (store_profiles zs (save_cache c (get_hash t) (tag fan d)) (final @ [tag fan d])))
        = (final @ [tag fan d]) @ more"
      using Cons.IH by blast
    then show ?thesis using z Inr by simp
  qed
qed

lemma call_llm_batch_service:
  "snd (call_llm_batch srv ts) = srv\<lparr>requests := requests srv @ [batch_prompt ts]\<rparr>"
  by (simp add: call_llm_batch_def chat_completions_create_def)

lemma call_llm_batch_result:
  "fst (call_llm_batch srv ts) =
     (case respond srv (length (requests srv)) (batch_prompt ts) of
        CallRaises \<Rightarrow> Inl ServiceError
      | NoArrayFound \<Rightarrow> Inr (map (\<lambda>_. JObject []) ts)
      | ParseFails \<Rightarrow> Inr (map (\<lambda>_. JObject []) ts)
      | Parsed profiles \<Rightarrow> Inr profiles)"
  by (simp add: call_llm_batch_def chat_completions_create_def)

lemma process_batch_all_hits:
  "uncached (cache st) batch = [] \<Longrightarrow> process_batch st batch = (st, served (cache st) batch)"
  by (simp add: process_batch_def check_cache_eq)

lemma process_batch_service:
  "service (fst (process_batch st batch)) =
     (if uncached (cache st) batch = [] then service st
      else (service st)\<lparr>requests := requests (service st)
              @ [batch_prompt (map fst (uncached (cache st) batch))]\<rparr>)"
proof (cases "uncached (cache st) batch = []")
  case True
  then show ?thesis by (simp add: process_batch_all_hits)
next
  case False
  obtain r s where c: "call_llm_batch (service st) (map fst (uncached (cache st) batch)) = (r, s)"
    by (cases "call_llm_batch (service st) (map fst (uncached (cache st) batch))") auto
  have s: "s = (service st)\<lparr>requests := requests (service st)
              @ [batch_prompt (map fst (uncached (cache st) batch))]\<rparr>"
    using call_llm_batch_service [of "service st" "map fst (uncached (cache st) batch)"] c by simp
  show ?thesis using False c s
    by (cases r) (simp_all add: process_batch_def check_cache_eq split: prod.splits)
qed

lemma store_placeholders:
  "length ids = length ts \<Longrightarrow>
   store_profiles (zip (map (\<lambda>_. JObject []) ts) (zip ids ts)) c final =
     (False, foldl (\<lambda>c (i, t). save_cache c (get_hash t) (placeholder i)) c (zip ids ts),
      final @ map placeholder ids)"
proof (induction ids ts arbitrary: c final rule: list_induct2)
  case Nil
  then show ?case by simp
next
  case (Cons i ids t ts)
  show ?case
    by (simp add: Cons.IH normalize_dict_Nil tag_Nil)
qed


lemma call_llm_batch_pair:
  "call_llm_batch srv ts = (fst (call_llm_batch srv ts), srv\<lparr>requests := requests srv @ [batch_prompt ts]\<rparr>)"
  by (metis call_llm_batch_service prod.collapse)

lemma process_batch_unparsed:
  assumes "uncached (cache st) batch \<noteq> []"
    and "next_reply st batch \<in> {NoArrayFound, ParseFails}"
  shows "process_batch st batch =
     (\<lparr>cache = foldl (\<lambda>c (i, t). save_cache c (get_hash t) (placeholder i)) (cache st)
                  (zip (map snd (uncached (cache st) batch)) (map fst (uncached (cache st) batch))),
       service = (service st)\<lparr>requests := requests (service st)
                   @ [batch_prompt (map fst (uncached (cache st) batch))]\<rparr>\<rparr>,
      served (cache st) batch @ map placeholder (map snd (uncached (cache st) batch)))"
proof -
  let ?qt = "map fst (uncached (cache st) batch)" and ?qi = "map snd (uncached (cache st) batch)"
  have "fst (call_llm_batch (service st) ?qt) = Inr (map (\<lambda>_. JObject []) ?qt)"
    using assms(2) by (auto simp: call_llm_batch_result next_reply_def)
  then have c: "call_llm_batch (service st) ?qt =
      (Inr (map (\<lambda>_. JObject []) ?qt), (service st)\<lparr>requests := requests (service st) @ [batch_prompt ?qt]\<rparr>)"
    using call_llm_batch_pair [of "service st" ?qt] by simp
  have s: "store_profiles (zip (map (\<lambda>_. JObject []) ?qt) (zip ?qi ?qt)) (cache st) (served (cache st) batch)
      = (False, foldl (\<lambda>c (i, t). save_cache c (get_hash t) (placeholder i)) (cache st) (zip ?qi ?qt),
         served (cache st) batch @ map placeholder ?qi)"
    by (rule store_placeholders) simp
  show ?thesis using assms(1)
    by (simp add: process_batch_def check_cache_eq c s del: map_map)
qed

lemma process_batch_raises:
  assumes "uncached (cache st) batch \<noteq> []"
    and "next_reply st batch = CallRaises"
  shows "process_batch st batch =
     (\<lparr>cache = cache st,
       service = (service st)\<lparr>requests := requests (service st)
                   @ [batch_prompt (map fst (uncached (cache st) batch))]\<rparr>\<rparr>,
      served (cache st) batch @ map placeholder (map snd (uncached (cache st) batch)))"
proof -
  let ?qt = "map fst (uncached (cache st) batch)"
  have "fst (call_llm_batch (service st) ?qt) = Inl ServiceError"
    using assms(2) by (simp add: call_llm_batch_result next_reply_def)
  then have c: "call_llm_batch (service st) ?qt =
      (Inl ServiceError, (service st)\<lparr>requests := requests (service st) @ [batch_prompt ?qt]\<rparr>)"
    using call_llm_batch_pair [of "service st" ?qt] by simp
  show ?thesis using assms(1)
    by (simp add: process_batch_def check_cache_eq c)
qed

lemma process_batch_serves_hits:
  "\<exists>more. snd (process_batch st batch) = served (cache st) batch @ more"
proof (cases "uncached (cache st) batch = []")
  case True
  then show ?thesis by (simp add: process_batch_all_hits)
next
  case False
  let ?qt = "map fst (uncached (cache st) batch)" and ?qi = "map snd (uncached (cache st) batch)"
  obtain r s where c: "call_llm_batch (service st) ?qt = (r, s)"
    by (cases "call_llm_batch (service st) ?qt") auto
  show ?thesis
  proof (cases r)
    case (Inl e)
    then show ?thesis using False c by (simp add: process_batch_def check_cache_eq)
  next
    case (Inr new)
    obtain more where m: "snd (snd (store_profiles (zip new (zip ?qi ?qt)) (cache st) (served (cache st) batch)))
        = served (cache st) batch @ more"
      using store_profiles_prefix by blast
    show ?thesis using False c Inr m
      by (auto simp: process_batch_def check_cache_eq split: prod.splits)
  qed
qed




text \<open>
  C3. For every batch processed by the profiler, in any state of the cache and for any
  service: if some fan of the batch is not served by the cache, the service receives
  exactly one more request, and that request is the prompt built from exactly the texts of
  the uncached fans, in batch order; if every fan is served by the cache, the service
  receives no request and the output is the cached profiles. In both cases the output
  starts with the profiles served from the cache.
\<close>

theorem one_call_covering_the_uncached_fans:
  "(uncached (cache st) batch \<noteq> [] \<longrightarrow>
      requests (service (fst (process_batch st batch)))
        = requests (service st) @ [batch_prompt (map fst (uncached (cache st) batch))]) \<and>
   (uncached (cache st) batch = [] \<longrightarrow>
      requests (service (fst (process_batch st batch))) = requests (service st) \<and>
      snd (process_batch st batch) = served (cache st) batch) \<and>
   respond (service (fst (process_batch st batch))) = respond (service st) \<and>
   (\<exists>more. snd (process_batch st batch) = served (cache st) batch @ more)"
  using process_batch_serves_hits [of st batch]
  by (simp add: process_batch_service process_batch_all_hits)

lemmas profiler_eval = process_batch_def call_llm_batch_def chat_completions_create_def
  is_hit_def load_cache_def save_cache_def
  uncached_def served_def tag_def normalize_dict_def key_map_get_def key_map_def placeholder_def

theorem one_call_covering_the_uncached_fans_witness:
  "uncached (cache (warm srv_raises)) five_fans = [(''a  b'', ''f2''), (''a  b'', ''f4'')] \<and>
   requests (service (fst (process_batch (warm srv_raises) five_fans)))
     = [batch_prompt [''a  b'', ''a  b'']] \<and>
   length (snd (process_batch (warm srv_raises) five_fans)) = 5 \<and>
   uncached (cache (warm srv_raises)) [(''a b'', ''f1''), (''a b'', ''f3'')] = [] \<and>
   requests (service (fst (process_batch (warm srv_raises) [(''a b'', ''f1''), (''a b'', ''f3'')]))) = [] \<and>
   snd (process_batch (warm srv_raises) [(''a b'', ''f1''), (''a b'', ''f3'')])
     = [[(''age_indicators'', JString ''30s''), (''fan_model_id'', JString ''f1'')],
        [(''age_indicators'', JString ''30s''), (''fan_model_id'', JString ''f3'')]]"
  using one_call_covering_the_uncached_fans [of "warm srv_raises" five_fans]
    one_call_covering_the_uncached_fans [of "warm srv_raises" "[(''a b'', ''f1''), (''a b'', ''f3'')]"]
  by (simp add: warm_def five_fans_def srv_raises_def profiler_eval
      get_hash_one_space get_hash_two_spaces)




text \<open>
  C4, at answers the service can give. Two fans, an empty cache. When the answer is an
  array of one object, the output has one profile: the second fan is dropped. When the
  answer is an object followed by \<^verbatim>\<open>null\<close>, the output has three profiles: the first fan
  appears twice.
\<close>

theorem short_reply_drops_a_fan:
  "fan_texts two_fans = [(''hi'', ''f1_m''), (''hi'', ''f2_m'')] \<and>
   snd (profile_fans (cold srv_one_object) two_fans)
     = [[(''age_indicators'', JString ''30s''), (''fan_model_id'', JString ''f1_m'')]] \<and>
   snd (profile_fans (cold srv_object_then_null) two_fans)
     = [placeholder ''f1_m'', placeholder ''f1_m'', placeholder ''f2_m'']"
  by (simp add: two_fans_def chat_simps fan_texts_def List.map_filter_def profile_fans_def
      batches.simps BATCH_SIZE_def cold_def srv_one_object_def srv_object_then_null_def profiler_eval)

lemma py_eq_refl_iff: "distinct_keys j \<Longrightarrow> py_eq j j = nan_free j"
proof (induction j)
  case (JArray xs)
  then show ?case by (induction xs) (auto simp: list_all_iff)
next
  case (JObject kvs)
  have "(case map_of kvs (fst kv) of None \<Rightarrow> False | Some w \<Rightarrow> py_eq (snd kv) w) = nan_free (snd kv)"
    if "kv \<in> set kvs" for kv
  proof -
    have "map_of kvs (fst kv) = Some (snd kv)" using that JObject.prems by simp
    moreover have "py_eq (snd kv) (snd kv) = nan_free (snd kv)"
      using JObject.IH [of kv "snd kv"] that JObject.prems
      by (cases kv) (auto simp: list_all_iff)
    ultimately show ?thesis by simp
  qed
  then show ?case by (simp add: list_all_iff)
qed simp_all

lemma state_bytes_length: "length (state_bytes s) = 16"
  by (cases s) (simp add: le_bytes_def)

lemma hexdigest_length: "length (hexdigest bs) = 2 * length bs"
  by (induction bs) (simp_all add: hexdigest_def)

lemma get_hash_length: "length (get_hash text) = 32"
  by (simp add: get_hash_def md5_digest_def hexdigest_length state_bytes_length)

lemma stored_snoc:
  "stored (stores @ [(t, p)]) = save_cache (stored stores) (get_hash t) p"
  by (simp add: stored_def)

lemma stored_lookup_iff:
  "(load_cache (stored stores) (get_hash text) = None)
     = (get_hash text \<notin> (\<lambda>(t, p). get_hash t) ` set stores)"
proof (induction stores rule: rev_induct)
  case Nil
  then show ?case by (simp add: stored_def load_cache_def)
next
  case (snoc x stores)
  obtain t p where x: "x = (t, p)" by (cases x) auto
  show ?case using snoc
    by (auto simp: x stored_snoc load_cache_def save_cache_def)
qed

lemma update_values: "snd ` set (AList.update k v al) \<subseteq> insert v (snd ` set al)"
  by (induction al) auto

lemma normalize_dict_snoc:
  "normalize_dict (p @ [(k, v)]) = AList.update (key_map_get k) v (normalize_dict p)"
  by (simp add: normalize_dict_def)

lemma normalize_dict_keys: "distinct (map fst (normalize_dict p))"
proof (induction p rule: rev_induct)
  case Nil
  then show ?case by (simp add: normalize_dict_def)
next
  case (snoc x p)
  obtain k v where x: "x = (k, v)" by (cases x) auto
  show ?case using snoc by (simp add: x normalize_dict_snoc distinct_update)
qed

lemma normalize_dict_values: "snd ` set (normalize_dict p) \<subseteq> snd ` set p"
proof (induction p rule: rev_induct)
  case Nil
  then show ?case by (simp add: normalize_dict_def)
next
  case (snoc x p)
  obtain k v where x: "x = (k, v)" by (cases x) auto
  have "snd ` set (normalize_dict (p @ [x])) \<subseteq> insert v (snd ` set (normalize_dict p))"
    using update_values [of "key_map_get k" v "normalize_dict p"] by (simp add: x normalize_dict_snoc)
  also have "\<dots> \<subseteq> insert v (snd ` set p)" using snoc by blast
  also have "\<dots> = snd ` set (p @ [x])" by (auto simp: x)
  finally show ?case .
qed

lemma normalized_equal_to_copy:
  assumes "list_all (\<lambda>kv. distinct_keys (snd kv) \<and> nan_free (snd kv)) p"
  shows "py_eq (JObject (normalize_dict p)) (JObject (normalize_dict p))"
proof -
  have v: "\<forall>kv\<in>set (normalize_dict p). distinct_keys (snd kv) \<and> nan_free (snd kv)"
  proof
    fix kv assume "kv \<in> set (normalize_dict p)"
    then have "snd kv \<in> snd ` set p" using normalize_dict_values by blast
    then show "distinct_keys (snd kv) \<and> nan_free (snd kv)"
      using assms by (auto simp: list_all_iff)
  qed
  have "distinct_keys (JObject (normalize_dict p))"
    using v by (simp add: normalize_dict_keys list_all_iff)
  then have "py_eq (JObject (normalize_dict p)) (JObject (normalize_dict p))
      = nan_free (JObject (normalize_dict p))"
    by (rule py_eq_refl_iff)
  then show ?thesis using v by (simp add: list_all_iff)
qed

text \<open>
  C5 (as the code has it). Storing a profile under a text and looking the same text up
  returns that profile; when no value in it is \<^verbatim>\<open>NaN\<close>, its normalised form equals the
  normalised form of the stored profile under Python's \<^verbatim>\<open>==\<close>. A lookup returns nothing
  exactly when the key of the text differs from the keys of all stored texts, and a store
  under one key leaves the lookups under other keys as they were. The key is the MD5
  digest of the text as it is, 32 hexadecimal characters: the texts \<open>''a b''\<close>,
  \<open>''a  b''\<close>, \<open>''a b ''\<close> and \<open>''A b''\<close>, which differ in a space, a trailing space and the
  case of a letter, have four different keys.
\<close>

theorem store_then_lookup:
  "load_cache (save_cache c (get_hash text) p) (get_hash text) = Some p \<and>
   (list_all (\<lambda>kv. distinct_keys (snd kv) \<and> nan_free (snd kv)) p \<longrightarrow>
      (\<exists>q. load_cache (save_cache c (get_hash text) p) (get_hash text) = Some q \<and>
           py_eq (JObject (normalize_dict q)) (JObject (normalize_dict p)))) \<and>
   (load_cache (stored stores) (get_hash text) = None)
     = (get_hash text \<notin> (\<lambda>(t, p). get_hash t) ` set stores) \<and>
   (get_hash text' \<noteq> get_hash text \<longrightarrow>
      load_cache (save_cache c (get_hash text) p) (get_hash text') = load_cache c (get_hash text')) \<and>
   length (get_hash text) = 32 \<and>
   distinct [get_hash ''a b'', get_hash ''a  b'', get_hash ''a b '', get_hash ''A b'']"
proof (intro conjI impI)
  show l: "load_cache (save_cache c (get_hash text) p) (get_hash text) = Some p"
    by (simp add: load_cache_def save_cache_def)
  show "\<exists>q. load_cache (save_cache c (get_hash text) p) (get_hash text) = Some q \<and>
           py_eq (JObject (normalize_dict q)) (JObject (normalize_dict p))"
    if "list_all (\<lambda>kv. distinct_keys (snd kv) \<and> nan_free (snd kv)) p"
    using l normalized_equal_to_copy [OF that] by blast
  show "(load_cache (stored stores) (get_hash text) = None)
     = (get_hash text \<notin> (\<lambda>(t, p). get_hash t) ` set stores)"
    by (rule stored_lookup_iff)
  show "load_cache (save_cache c (get_hash text) p) (get_hash text') = load_cache c (get_hash text')"
    if "get_hash text' \<noteq> get_hash text"
    using that by (simp add: load_cache_def save_cache_def)
  show "length (get_hash text) = 32" by (rule get_hash_length)
  show "distinct [get_hash ''a b'', get_hash ''a  b'', get_hash ''a b '', get_hash ''A b'']"
    by (simp add: get_hash_one_space get_hash_two_spaces get_hash_trailing_space get_hash_upper_case)
qed

theorem store_then_lookup_witness:
  "list_all (\<lambda>kv. distinct_keys (snd kv) \<and> nan_free (snd kv)) (placeholder ''f1'') \<and>
   get_hash ''a  b'' \<noteq> get_hash ''a b'' \<and>
   load_cache (stored [(''a b'', placeholder ''f1'')]) (get_hash ''a  b'') = None \<and>
   load_cache (save_cache (stored []) (get_hash ''a b'') (placeholder ''f1'')) (get_hash ''a  b'') = None \<and>
   load_cache (save_cache (stored []) (get_hash ''a b'') (placeholder ''f1'')) (get_hash ''a b'')
     = Some (placeholder ''f1'') \<and>
   py_eq (JObject (normalize_dict (placeholder ''f1''))) (JObject (normalize_dict (placeholder ''f1'')))"
  using store_then_lookup [of "stored []" "''a b''" "placeholder ''f1''" "[(''a b'', placeholder ''f1'')]" "''a  b''"]
    store_then_lookup [of "stored []" "''a  b''" "placeholder ''f1''" "[(''a b'', placeholder ''f1'')]" "''a b''"]
  by (simp add: get_hash_one_space get_hash_two_spaces stored_def load_cache_def save_cache_def
      placeholder_def normalize_dict_def key_map_get_def key_map_def)

text \<open>Two different texts with one key: a profile stored under the first is returned
  for the second, which was never stored.\<close>

theorem distinct_texts_share_a_cache_key:
  "colliding_text_A \<noteq> colliding_text_B \<and>
   get_hash colliding_text_A = get_hash colliding_text_B \<and>
   load_cache (stored [(colliding_text_A, placeholder ''f1'')]) (get_hash colliding_text_B)
     = Some (placeholder ''f1'')"
  by (simp add: colliding_text_A_def colliding_text_B_def get_hash_collision_A get_hash_collision_B
      stored_def load_cache_def save_cache_def)

text \<open>A profile with a \<^verbatim>\<open>NaN\<close> value is read back as it was stored and is not equal to
  its copy.\<close>

lemma nan_profile_differs_from_its_copy:
  "load_cache (save_cache c (get_hash text) [(''Age indicators'', JNaN)]) (get_hash text)
     = Some [(''Age indicators'', JNaN)] \<and>
   \<not> py_eq (JObject (normalize_dict [(''Age indicators'', JNaN)]))
            (JObject (normalize_dict [(''Age indicators'', JNaN)]))"
  by (simp add: load_cache_def save_cache_def normalize_dict_def key_map_get_def key_map_def)

lemma tagged_fan: "map_of (tag fan d) ''fan_model_id'' = Some (JString fan)"
  by (simp add: tag_def update_conv')

lemma placeholder_fan: "map_of (placeholder fan) ''fan_model_id'' = Some (JString fan)"
  by (simp add: placeholder_def)

lemma served_fans:
  "map (\<lambda>p. map_of p ''fan_model_id'') (served c batch)
     = map (\<lambda>(text, fan). Some (JString fan)) (filter (\<lambda>(text, fan). is_hit c text) batch)"
  by (simp add: served_def tagged_fan case_prod_unfold comp_def)

lemma store_objects:
  "length ds = length ids \<Longrightarrow> length ids = length ts \<Longrightarrow>
   \<exists>c'. store_profiles (zip (map JObject ds) (zip ids ts)) c final =
     (False, c', final @ map (\<lambda>(d, fan). tag fan (normalize_dict d)) (zip ds ids))"
proof (induction ds ids ts arbitrary: c final rule: list_induct3)
  case Nil
  then show ?case by simp
next
  case (Cons d ds i ids t ts)
  obtain c' where "store_profiles (zip (map JObject ds) (zip ids ts))
      (save_cache c (get_hash t) (tag i (normalize_dict d))) (final @ [tag i (normalize_dict d)])
    = (False, c', (final @ [tag i (normalize_dict d)]) @ map (\<lambda>(d, fan). tag fan (normalize_dict d)) (zip ds ids))"
    using Cons.IH by blast
  then show ?case by simp
qed

text \<open>When the call raises, or its answer does not parse, or it parses to exactly one
  object for each uncached fan, the batch's output names every fan of the batch exactly
  once.\<close>

lemma one_profile_per_fan_when_reply_fits:
  assumes "next_reply st batch \<in> {CallRaises, NoArrayFound, ParseFails}
     \<or> (\<exists>ds. next_reply st batch = Parsed (map JObject ds)
              \<and> length ds = length (uncached (cache st) batch))"
  shows "mset (map (\<lambda>p. map_of p ''fan_model_id'') (snd (process_batch st batch)))
       = mset (map (\<lambda>(text, fan). Some (JString fan)) batch)"
proof -
  let ?U = "uncached (cache st) batch"
  let ?H = "filter (\<lambda>(text, fan). is_hit (cache st) text) batch"
  let ?f = "\<lambda>(text :: string, fan). Some (JString fan)"
  have split: "mset (map ?f ?H) + mset (map ?f ?U) = mset (map ?f batch)"
    unfolding uncached_def by (induction batch) auto
  have "map (\<lambda>p. map_of p ''fan_model_id'') (snd (process_batch st batch)) = map ?f ?H @ map ?f ?U"
  proof (cases "?U = []")
    case True
    then show ?thesis by (simp add: process_batch_all_hits served_fans)
  next
    case ne: False
    consider (raises) "next_reply st batch = CallRaises"
      | (unparsed) "next_reply st batch \<in> {NoArrayFound, ParseFails}"
      | (fits) ds where "next_reply st batch = Parsed (map JObject ds)" "length ds = length ?U"
      using assms by auto
    then show ?thesis
    proof cases
      case raises
      show ?thesis
        by (simp add: process_batch_raises [of st batch, OF ne raises] served_fans
            placeholder_fan case_prod_unfold comp_def)
    next
      case unparsed
      show ?thesis
        by (simp add: process_batch_unparsed [of st batch, OF ne unparsed] served_fans
            placeholder_fan case_prod_unfold comp_def)
    next
      case fits
      obtain c' where s: "store_profiles (zip (map JObject ds) (zip (map snd ?U) (map fst ?U)))
          (cache st) (served (cache st) batch)
        = (False, c', served (cache st) batch
             @ map (\<lambda>(d, fan). tag fan (normalize_dict d)) (zip ds (map snd ?U)))"
        using store_objects [of ds "map snd ?U" "map fst ?U"] fits(2) by auto
      have "map (\<lambda>p. map_of p ''fan_model_id'')
              (map (\<lambda>(d, fan). tag fan (normalize_dict d)) (zip ds (map snd ?U)))
          = map (\<lambda>(d, fan). Some (JString fan)) (zip ds (map snd ?U))"
        by (simp add: tagged_fan case_prod_unfold comp_def)
      also have "\<dots> = map (\<lambda>fan. Some (JString fan)) (map snd (zip ds (map snd ?U)))"
        by (simp add: case_prod_unfold comp_def)
      also have "map snd (zip ds (map snd ?U)) = map snd ?U"
        using fits(2) by (simp add: map_snd_zip)
      finally have t: "map (\<lambda>p. map_of p ''fan_model_id'')
              (map (\<lambda>(d, fan). tag fan (normalize_dict d)) (zip ds (map snd ?U))) = map ?f ?U"
        by (simp add: case_prod_unfold comp_def)
      have "fst (call_llm_batch (service st) (map fst ?U)) = Inr (map JObject ds)"
        using fits(1) by (simp add: call_llm_batch_result next_reply_def)
      then have c: "call_llm_batch (service st) (map fst ?U) =
          (Inr (map JObject ds), (service st)\<lparr>requests := requests (service st) @ [batch_prompt (map fst ?U)]\<rparr>)"
        using call_llm_batch_pair [of "service st" "map fst ?U"] by simp
      have "snd (process_batch st batch) = served (cache st) batch
             @ map (\<lambda>(d, fan). tag fan (normalize_dict d)) (zip ds (map snd ?U))"
        using ne by (simp add: process_batch_def check_cache_eq c s del: map_map)
      then show ?thesis using t by (simp add: served_fans)
    qed
  qed
  then show ?thesis using split by simp
qed

end
